theory Spec2Isabelle
  imports Complex_Main
begin

section \<open>Points\<close>

text \<open>
  A \<open>Point\<close> is a vector of three \<open>Real\<close>s; \<open>Real\<close> and \<open>Number\<close> are double precision
  (the library's default configuration). The class itself (point.h, type_vector.h) is not
  under src/. In the model of \<open>main\<close> the coordinates and the field values are idealised
  as mathematical reals: \<open>main\<close> hands points to its collaborators and adds and multiplies
  values, and what is stated of it are formulas for these values. Where the program
  branches on a comparison of computed values, in \<open>InfHex8::contains_point\<close>, rounding
  is modelled: its points are the \<open>Point_d\<close> of the next section.
\<close>

record Point =
  px :: real
  py :: real
  pz :: real

text \<open>The squared distance between two points, as the claims speak of it.\<close>

definition dist_sq :: "Point \<Rightarrow> Point \<Rightarrow> real" where
  "dist_sq a b = (px a - px b)\<^sup>2 + (py a - py b)\<^sup>2 + (pz a - pz b)\<^sup>2"

section \<open>Double precision\<close>

text \<open>
  A double is a finite value, an infinity or a NaN. \<open>Finite m e\<close> stands for \<open>m * 2^e\<close>;
  the finite values of the IEEE 754 binary64 format are those with \<open>\<bar>m\<bar> < 2^53\<close> and
  \<open>-1074 \<le> e \<le> 971\<close>. The sign of a zero is left out: no operation used here tells
  the two zeros apart.
\<close>

datatype double = Finite int int | Plus_infinity | Minus_infinity | NaN

text \<open>The number of binary digits of a positive integer.\<close>

function bit_length :: "int \<Rightarrow> int" where
  "bit_length a = (if a \<le> 0 then 0 else 1 + bit_length (a div 2))"
  by auto
termination by (relation "measure nat") auto

declare bit_length.simps [simp del]

text \<open>
  \<open>a / 2^s\<close> for \<open>0 \<le> a\<close> and \<open>0 < s\<close>, rounded to the nearest integer, a tie to the even
  one.
\<close>

definition round_half_even :: "int \<Rightarrow> int \<Rightarrow> int" where
  "round_half_even a s =
     (let q = a div 2 ^ nat s; r = a mod 2 ^ nat s; h = 2 ^ nat (s - 1)
      in if h < r \<or> (r = h \<and> odd q) then q + 1 else q)"

text \<open>
  The exact value \<open>m * 2^e\<close> rounded to the format, to nearest and ties to even: the
  result keeps 53 significant bits, or fewer at the least exponent -1074 (a subnormal
  number); a magnitude that rounds to \<open>2^1024\<close> or more becomes an infinity. A result that
  is not zero is returned with the exponent of its last bit in the format, the form in
  which the format holds it.
\<close>

definition round_to_double :: "int \<Rightarrow> int \<Rightarrow> double" where
  "round_to_double m e =
     (let a = \<bar>m\<bar>;
          q = max (bit_length a + e - 53) (- 1074);
          n = (if q \<le> e then a * 2 ^ nat (e - q) else round_half_even a (q - e));
          n' = (if n = 2 ^ 53 then 2 ^ 52 else n);
          q' = (if n = 2 ^ 53 then q + 1 else q)
      in if n = 0 then Finite 0 0
         else if 971 < q' then (if 0 < m then Plus_infinity else Minus_infinity)
         else Finite (sgn m * n') q')"

text \<open>
  The operations \<open>-x\<close>, \<open>x + y\<close>, \<open>x - y\<close>, \<open>x * y\<close> and \<open>x < y\<close> on doubles, each
  arithmetic operation rounded once (no fused multiplication and addition, no wider
  intermediate format), and \<open>std::min\<close>, which returns its second argument when that is
  less than the first, and its first argument otherwise.
\<close>

fun dneg :: "double \<Rightarrow> double" where
  "dneg (Finite m e) = Finite (- m) e"
| "dneg Plus_infinity = Minus_infinity"
| "dneg Minus_infinity = Plus_infinity"
| "dneg NaN = NaN"

fun dadd :: "double \<Rightarrow> double \<Rightarrow> double" where
  "dadd (Finite m1 e1) (Finite m2 e2) =
     (let e = min e1 e2 in round_to_double (m1 * 2 ^ nat (e1 - e) + m2 * 2 ^ nat (e2 - e)) e)"
| "dadd NaN y = NaN"
| "dadd x NaN = NaN"
| "dadd Plus_infinity Minus_infinity = NaN"
| "dadd Minus_infinity Plus_infinity = NaN"
| "dadd Plus_infinity y = Plus_infinity"
| "dadd Minus_infinity y = Minus_infinity"
| "dadd x Plus_infinity = Plus_infinity"
| "dadd x Minus_infinity = Minus_infinity"

definition dsub :: "double \<Rightarrow> double \<Rightarrow> double" where
  "dsub x y = dadd x (dneg y)"

fun dsign :: "double \<Rightarrow> int" where
  "dsign (Finite m e) = sgn m"
| "dsign Plus_infinity = 1"
| "dsign Minus_infinity = - 1"
| "dsign NaN = 0"

fun dmul :: "double \<Rightarrow> double \<Rightarrow> double" where
  "dmul (Finite m1 e1) (Finite m2 e2) = round_to_double (m1 * m2) (e1 + e2)"
| "dmul NaN y = NaN"
| "dmul x NaN = NaN"
| "dmul x y = (if dsign x * dsign y = 0 then NaN
               else if 0 < dsign x * dsign y then Plus_infinity else Minus_infinity)"

fun dless :: "double \<Rightarrow> double \<Rightarrow> bool" where
  "dless (Finite m1 e1) (Finite m2 e2) =
     (let e = min e1 e2 in m1 * 2 ^ nat (e1 - e) < m2 * 2 ^ nat (e2 - e))"
| "dless NaN y = False"
| "dless x NaN = False"
| "dless Minus_infinity Minus_infinity = False"
| "dless Minus_infinity y = True"
| "dless x Minus_infinity = False"
| "dless Plus_infinity y = False"
| "dless x Plus_infinity = True"

definition std_min :: "double \<Rightarrow> double \<Rightarrow> double" where
  "std_min a b = (if dless b a then b else a)"

text \<open>The real number that a finite double stands for.\<close>

fun is_finite :: "double \<Rightarrow> bool" where
  "is_finite (Finite m e) = True"
| "is_finite d = False"

fun value_of :: "double \<Rightarrow> real" where
  "value_of (Finite m e) = of_int m * power_int 2 e"
| "value_of d = 0"

text \<open>
  A point with its coordinates in double precision, and the two operations of the class
  that \<open>InfHex8::contains_point\<close> uses: \<open>operator-\<close>, the componentwise difference, and
  \<open>norm_sq()\<close>, the sum of the squares of the coordinates, added from left to right.
  \<open>exact_point\<close> is the point of real coordinates that a point of finite coordinates
  stands for.
\<close>

record Point_d =
  x_d :: double
  y_d :: double
  z_d :: double

definition point_sub :: "Point_d \<Rightarrow> Point_d \<Rightarrow> Point_d" where
  "point_sub a b =
     \<lparr>x_d = dsub (x_d a) (x_d b), y_d = dsub (y_d a) (y_d b), z_d = dsub (z_d a) (z_d b)\<rparr>"

definition norm_sq :: "Point_d \<Rightarrow> double" where
  "norm_sq a = dadd (dadd (dmul (x_d a) (x_d a)) (dmul (y_d a) (y_d a))) (dmul (z_d a) (z_d a))"

definition exact_point :: "Point_d \<Rightarrow> Point" where
  "exact_point a = \<lparr>px = value_of (x_d a), py = value_of (y_d a), pz = value_of (z_d a)\<rparr>"

section \<open>InfHex8 (src/src/geom/cell_inf_hex8.C)\<close>

subsection \<open>The element and the finite element interface it calls\<close>

text \<open>
  Of an infinite hexahedron, \<open>contains_point\<close> reads the positions of the four base
  nodes (\<open>this->point(0..3)\<close>) and the origin (\<open>this->origin()\<close>, computed by the base
  class, which is not under src/).
\<close>

record InfHex8 =
  point :: "nat \<Rightarrow> Point_d"
  origin :: Point_d

text \<open>
  \<open>FEInterface::inverse_map\<close> and \<open>FEInterface::on_reference_element\<close> are not under
  src/: they are parameters. The dimension, the \<open>FEType\<close> of the default order and the
  element type are fixed by the caller and left out; the last argument of
  \<open>fei_inverse_map\<close> is the \<open>secure\<close> flag.
\<close>

record FEInterface =
  fei_inverse_map :: "InfHex8 \<Rightarrow> Point_d \<Rightarrow> double \<Rightarrow> bool \<Rightarrow> Point_d"
  fei_on_reference_element :: "Point_d \<Rightarrow> double \<Rightarrow> bool"

text \<open>A call of the inverse map, with its arguments: the point, the tolerance, the flag.\<close>

datatype fe_call = Inverse_map_call Point_d double bool

subsection \<open>contains_point\<close>

text \<open>
  The literal \<open>1.01\<close> is the double nearest to 101/100, which is
  \<open>4548635623644201 * 2^-52\<close>.
\<close>

definition literal_1_01 :: double where
  "literal_1_01 = Finite 4548635623644201 (- 52)"

text \<open>
  The function returns its boolean together with the list of inverse map calls it made,
  so that "without invoking the inverse map" is a statement about the result.
\<close>

definition contains_point :: "FEInterface \<Rightarrow> InfHex8 \<Rightarrow> Point_d \<Rightarrow> double \<Rightarrow> bool \<times> fe_call list" where
  "contains_point fei elem p tol =
     (let my_origin = origin elem;
          min_distance_sq =
            std_min (norm_sq (point_sub (point elem 0) my_origin))
              (std_min (norm_sq (point_sub (point elem 1) my_origin))
                (std_min (norm_sq (point_sub (point elem 2) my_origin))
                         (norm_sq (point_sub (point elem 3) my_origin))));
          conservative_p_dist_sq = dmul literal_1_01 (norm_sq (point_sub p my_origin))
      in if dless conservative_p_dist_sq min_distance_sq then (False, [])
         else
           (let mapped_point = fei_inverse_map fei elem p tol False
            in (fei_on_reference_element fei mapped_point tol,
                [Inverse_map_call p tol False])))"

text \<open>
  The three computed quantities of the test, by name: 1.01 times the squared distance of
  \<open>p\<close> from the origin, the squared distance of base node \<open>i\<close> from the origin, and the
  least of the four as \<open>std::min\<close> gives it.
\<close>

definition conservative_dist_sq :: "InfHex8 \<Rightarrow> Point_d \<Rightarrow> double" where
  "conservative_dist_sq elem p = dmul literal_1_01 (norm_sq (point_sub p (origin elem)))"

definition base_dist_sq :: "InfHex8 \<Rightarrow> nat \<Rightarrow> double" where
  "base_dist_sq elem i = norm_sq (point_sub (point elem i) (origin elem))"

definition least_base_dist_sq :: "InfHex8 \<Rightarrow> double" where
  "least_base_dist_sq elem =
     std_min (base_dist_sq elem 0)
       (std_min (base_dist_sq elem 1) (std_min (base_dist_sq elem 2) (base_dist_sq elem 3)))"

subsection \<open>The embedding matrix\<close>

text \<open>
  \<open>InfHex8::_embedding_matrix[4][8][8]\<close>: for each of the four children, one row per child
  node, one coefficient per parent node. The entries are \<open>float\<close> literals.
\<close>

definition embedding_matrix :: "real list list list" where
  "embedding_matrix =
   [
    [
      [    1.0,   0.0,   0.0,   0.0,   0.0,   0.0,   0.0,   0.0],
      [    0.5,   0.5,   0.0,   0.0,   0.0,   0.0,   0.0,   0.0],
      [   0.25,  0.25,  0.25,  0.25,   0.0,   0.0,   0.0,   0.0],
      [    0.5,   0.0,   0.0,   0.5,   0.0,   0.0,   0.0,   0.0],
      [    0.0,   0.0,   0.0,   0.0,   1.0,   0.0,   0.0,   0.0],
      [    0.0,   0.0,   0.0,   0.0,   0.5,   0.5,   0.0,   0.0],
      [    0.0,   0.0,   0.0,   0.0,  0.25,  0.25,  0.25,  0.25],
      [    0.0,   0.0,   0.0,   0.0,   0.5,   0.0,   0.0,   0.5]
    ],
    [
      [    0.5,   0.5,   0.0,   0.0,   0.0,   0.0,   0.0,   0.0],
      [    0.0,   1.0,   0.0,   0.0,   0.0,   0.0,   0.0,   0.0],
      [    0.0,   0.5,   0.5,   0.0,   0.0,   0.0,   0.0,   0.0],
      [   0.25,  0.25,  0.25,  0.25,   0.0,   0.0,   0.0,   0.0],
      [    0.0,   0.0,   0.0,   0.0,   0.5,   0.5,   0.0,   0.0],
      [    0.0,   0.0,   0.0,   0.0,   0.0,   1.0,   0.0,   0.0],
      [    0.0,   0.0,   0.0,   0.0,   0.0,   0.5,   0.5,   0.0],
      [    0.0,   0.0,   0.0,   0.0,  0.25,  0.25,  0.25,  0.25]
    ],
    [
      [    0.5,   0.0,   0.0,   0.5,   0.0,   0.0,   0.0,   0.0],
      [   0.25,  0.25,  0.25,  0.25,   0.0,   0.0,   0.0,   0.0],
      [    0.0,   0.0,   0.5,   0.5,   0.0,   0.0,   0.0,   0.0],
      [    0.0,   0.0,   0.0,   1.0,   0.0,   0.0,   0.0,   0.0],
      [    0.0,   0.0,   0.0,   0.0,   0.5,   0.0,   0.0,   0.5],
      [    0.0,   0.0,   0.0,   0.0,  0.25,  0.25,  0.25,  0.25],
      [    0.0,   0.0,   0.0,   0.0,   0.0,   0.0,   0.5,   0.5],
      [    0.0,   0.0,   0.0,   0.0,   0.0,   0.0,   0.0,   1.0]
    ],
    [
      [   0.25,  0.25,  0.25,  0.25,   0.0,   0.0,   0.0,   0.0],
      [    0.0,   0.5,   0.5,   0.0,   0.0,   0.0,   0.0,   0.0],
      [    0.0,   0.0,   1.0,   0.0,   0.0,   0.0,   0.0,   0.0],
      [    0.0,   0.0,   0.5,   0.5,   0.0,   0.0,   0.0,   0.0],
      [    0.0,   0.0,   0.0,   0.0,  0.25,  0.25,  0.25,  0.25],
      [    0.0,   0.0,   0.0,   0.0,   0.0,   0.5,   0.5,   0.0],
      [    0.0,   0.0,   0.0,   0.0,   0.0,   0.0,   1.0,   0.0],
      [    0.0,   0.0,   0.0,   0.0,   0.0,   0.0,   0.5,   0.5]
    ]
   ]"

text \<open>
  A real number is a value of the IEEE 754 single precision format when it is an integer of
  at most 24 bits times a power of two in the format's exponent range.
\<close>

definition float_representable :: "real \<Rightarrow> bool" where
  "float_representable x =
     (\<exists>m e :: int. \<bar>m\<bar> < 2 ^ 24 \<and> -149 \<le> e \<and> e \<le> 104 \<and> x = of_int m * power_int 2 e)"

text \<open>
  The position of a child node that a row of the matrix gives: the combination of the
  parent's node positions (one coordinate) with the row's coefficients.
\<close>

definition combine :: "real list \<Rightarrow> real list \<Rightarrow> real" where
  "combine coeffs xs = sum_list (map2 (*) coeffs xs)"

text \<open>
  The sums that adding a row's coefficients from left to right goes through, and what the
  claim says of a row: eight coefficients, each 0, 0.25, 0.5 or 1, of sum 1, with every
  sum on the way a multiple of a quarter.
\<close>

definition partial_sums :: "real list \<Rightarrow> real list" where
  "partial_sums r = map (\<lambda>n. sum_list (take n r)) [0..<Suc (length r)]"

definition row_ok :: "real list \<Rightarrow> bool" where
  "row_ok r =
     (length r = 8 \<and> sum_list r = 1 \<and> set r \<subseteq> {0, 1 / 4, 1 / 2, 1}
      \<and> set (partial_sums r) \<subseteq> {0, 1 / 4, 1 / 2, 3 / 4, 1})"

section \<open>The mesh comparison program (src/unnamed/part_000)\<close>

subsection \<open>Meshes, elements and the external collaborators\<close>

text \<open>
  An element is known to \<open>main\<close> through its address (\<open>elem_id\<close> stands for it) and
  through \<open>node(i)\<close> and \<open>n_nodes()\<close>: the list of its global node numbers. A mesh is its
  sequence of elements and of node positions. Both classes are declared in headers that
  are not under src/.
\<close>

record Elem =
  elem_id :: nat
  elem_nodes :: "nat list"

record Mesh =
  mesh_elems :: "Elem list"
  mesh_points :: "Point list"

text \<open>
  What \<open>main\<close> calls and src/ does not hold is a parameter: the file readers, the octree
  (\<open>find_element m p\<close> is the query on the octree built over mesh \<open>m\<close> with at most 100
  elements in a bin, \<open>None\<close> for the null pointer), the containment test of an element,
  and the finite element objects. \<open>get_JxW\<close>, \<open>get_xyz\<close> and \<open>get_phi\<close> give the vectors
  that \<open>fe_fine\<close> holds after \<open>fe_fine.reinit\<close> on an element, for the quadrature rule of
  the program. The state of a finite element object is the element of its last
  \<open>reinit\<close>: \<open>n_shape_functions\<close> reads it, and \<open>inverse_map\<close> and \<open>shape\<close>, member
  functions of \<open>fe_coarse\<close>, take it as their first argument (the order \<open>SECOND\<close> is
  fixed).
\<close>

record externals =
  atoi :: "string \<Rightarrow> int"
  mesh_read :: "string \<Rightarrow> Mesh"
  mesh_print_info :: "Mesh \<Rightarrow> string"
  read_mgf_soln :: "Mesh \<Rightarrow> string \<Rightarrow> real list \<times> string list"
  n_active_bins :: "Mesh \<Rightarrow> nat"
  find_element :: "Mesh \<Rightarrow> Point \<Rightarrow> Elem option"
  elem_contains_point :: "Elem \<Rightarrow> Point \<Rightarrow> bool"
  get_JxW :: "Elem \<Rightarrow> real list"
  get_xyz :: "Elem \<Rightarrow> Point list"
  get_phi :: "Elem \<Rightarrow> real list list"
  n_shape_functions :: "Elem \<Rightarrow> nat"
  inverse_map :: "Elem \<Rightarrow> Elem \<Rightarrow> Point \<Rightarrow> Point"
  shape :: "Elem \<Rightarrow> Elem \<Rightarrow> nat \<Rightarrow> Point \<Rightarrow> real"

subsection \<open>Failures and events\<close>

text \<open>
  A run that does not reach the end of \<open>main\<close> stops in one of three ways: the usage
  error (\<open>error()\<close> after the synopsis), a failed \<open>assert\<close> (assertions are taken as
  compiled in; the string is the asserted expression), or behaviour that C++ leaves
  undefined and the program does not check (a vector read or written outside its range,
  \<open>elem(0)\<close> of an empty mesh, \<open>argv[0]\<close> of an empty argument vector).
\<close>

datatype failure = Usage_error | Assertion_failed string | Undefined

text \<open>
  The events of a run are its outputs and its calls of the collaborators that the claims
  speak of, in program order. \<open>Inverse_map fe e p\<close> is the call
  \<open>fe_coarse.inverse_map(e, p)\<close> made while \<open>fe_coarse\<close> was last reinitialised for
  \<open>fe\<close>; the calls of \<open>shape\<close> that follow it in the same iteration are made on the same
  element in the same state. The performance log is left out.
\<close>

datatype event =
    Cerr string
  | Cout string
  | Cout_nat string nat
  | Cout_real string real
  | Read_mesh string
  | Read_soln string
  | Octree_build
  | Fe_coarse_reinit Elem
  | Find_element Point
  | Inverse_map Elem Elem Point
  | Write_nodal_data string "real list" "string list"

type_synonym 'a outcome = "(failure \<times> event list) + 'a"

text \<open>What \<open>main\<close> has read, and the variable index \<open>atoi(argv[1])\<close>.\<close>

record inputs =
  mesh_coarse :: Mesh
  mesh_fine :: Mesh
  coarse_solution :: "real list"
  fine_solution :: "real list"
  coarse_var_names :: "string list"
  fine_var_names :: "string list"
  ivar :: int

text \<open>
  The variables that the two sweeps change: the accumulated \<open>error\<close>, the remembered
  coarse element, the state of \<open>fe_coarse\<close>, the difference field and the visited markers,
  and the events so far.
\<close>

record state =
  error :: real
  coarse_element :: Elem
  fe_coarse :: Elem
  diff_solution :: "real list"
  already_done :: "bool list"
  events :: "event list"

subsection \<open>Index arithmetic\<close>

text \<open>
  \<open>gn*nv + ivar\<close> is computed in \<open>unsigned int\<close>: the \<open>int\<close> operand is converted and the
  result is reduced modulo \<open>2^32\<close>.
\<close>

definition unsigned_int :: "int \<Rightarrow> nat" where
  "unsigned_int i = nat (i mod 4294967296)"

definition field_index :: "nat \<Rightarrow> nat \<Rightarrow> int \<Rightarrow> nat" where
  "field_index gn nv v = unsigned_int (int gn * int nv + v)"

subsection \<open>Interpolation loops\<close>

text \<open>Lines 161-167: the fine solution at Gauss point \<open>gp\<close>, over the local nodes \<open>i\<close>.\<close>

fun fine_soln_loop :: "inputs \<Rightarrow> Elem \<Rightarrow> real list list \<Rightarrow> nat \<Rightarrow> nat list \<Rightarrow> real \<Rightarrow> failure + real" where
  "fine_soln_loop inp fine_element phi gp [] fine_soln = Inr fine_soln"
| "fine_soln_loop inp fine_element phi gp (i # rest) fine_soln =
     (let nv = length (fine_var_names inp) in
      if i < length (elem_nodes fine_element) then
        (let gn = elem_nodes fine_element ! i;
             k = field_index gn nv (ivar inp)
         in if k < length (fine_solution inp) \<and> i < length phi \<and> gp < length (phi ! i)
            then fine_soln_loop inp fine_element phi gp rest
                   (fine_soln + fine_solution inp ! k * (phi ! i ! gp))
            else Inl Undefined)
      else Inl Undefined)"

text \<open>
  Lines 195-204 and 263-267: the coarse solution of variable \<open>v\<close> at the mapped point,
  over the shape functions \<open>i\<close> of \<open>fe_coarse\<close> (in state \<open>fe\<close>) and the nodes of the
  coarse element \<open>ce\<close>.
\<close>

fun coarse_soln_loop ::
  "externals \<Rightarrow> real list \<Rightarrow> nat \<Rightarrow> int \<Rightarrow> Elem \<Rightarrow> Elem \<Rightarrow> Point \<Rightarrow> nat list \<Rightarrow> real \<Rightarrow> failure + real" where
  "coarse_soln_loop ext soln nv v fe ce mapped_point [] coarse_soln = Inr coarse_soln"
| "coarse_soln_loop ext soln nv v fe ce mapped_point (i # rest) coarse_soln =
     (if i < length (elem_nodes ce) then
        (let gn = elem_nodes ce ! i;
             k = field_index gn nv v
         in if k < length soln
            then coarse_soln_loop ext soln nv v fe ce mapped_point rest
                   (coarse_soln + soln ! k * shape ext fe ce i mapped_point)
            else Inl Undefined)
      else Inl Undefined)"

subsection \<open>The cached point locator\<close>

text \<open>
  Lines 173-187 and 240-254 (the same statements in both sweeps): the remembered element
  is tested first; on a miss the octree is asked, the result is asserted not to be null,
  becomes the remembered element, and \<open>fe_coarse\<close> is reinitialised for it.
\<close>

definition locate :: "externals \<Rightarrow> Mesh \<Rightarrow> state \<Rightarrow> Point \<Rightarrow> state outcome" where
  "locate ext mc s p =
     (if \<not> elem_contains_point ext (coarse_element s) p then
        (case find_element ext mc p of
           None \<Rightarrow> Inl (Assertion_failed ''coarse_element != NULL'', events s @ [Find_element p])
         | Some e \<Rightarrow>
             Inr (s\<lparr>coarse_element := e, fe_coarse := e,
                    events := events s @ [Find_element p, Fe_coarse_reinit e]\<rparr>))
      else Inr s)"

subsection \<open>The error sweep (lines 139-217)\<close>

text \<open>The body of the loop over the Gauss points of one fine element.\<close>

definition gp_body :: "externals \<Rightarrow> inputs \<Rightarrow> Elem \<Rightarrow> state \<Rightarrow> nat \<Rightarrow> state outcome" where
  "gp_body ext inp fine_element s gp =
     (if n_shape_functions ext fine_element \<noteq> length (elem_nodes fine_element) then
        Inl (Assertion_failed ''fe_fine.n_shape_functions() == fine_element->n_nodes()'', events s)
      else
        (case fine_soln_loop inp fine_element (get_phi ext fine_element) gp
                [0..<n_shape_functions ext fine_element] 0 of
           Inl f \<Rightarrow> Inl (f, events s)
         | Inr fine_soln \<Rightarrow>
             if \<not> gp < length (get_xyz ext fine_element) then Inl (Undefined, events s)
             else
               (let q = get_xyz ext fine_element ! gp in
                case locate ext (mesh_coarse inp) s q of
                  Inl a \<Rightarrow> Inl a
                | Inr s1 \<Rightarrow>
                    (let mapped_point = inverse_map ext (fe_coarse s1) (coarse_element s1) q;
                         s2 = s1\<lparr>events := events s1 @ [Inverse_map (fe_coarse s1) (coarse_element s1) q]\<rparr>
                     in case coarse_soln_loop ext (coarse_solution inp) (length (coarse_var_names inp))
                               (ivar inp) (fe_coarse s2) (coarse_element s2) mapped_point
                               [0..<n_shape_functions ext (fe_coarse s2)] 0 of
                          Inl f \<Rightarrow> Inl (f, events s2)
                        | Inr coarse_soln \<Rightarrow>
                            if gp < length (get_JxW ext fine_element) then
                              Inr (s2\<lparr>error := error s2 +
                                     get_JxW ext fine_element ! gp * (coarse_soln - fine_soln)
                                       * (coarse_soln - fine_soln)\<rparr>)
                            else Inl (Undefined, events s2)))))"

fun gp_loop :: "externals \<Rightarrow> inputs \<Rightarrow> Elem \<Rightarrow> state \<Rightarrow> nat list \<Rightarrow> state outcome" where
  "gp_loop ext inp fine_element s [] = Inr s"
| "gp_loop ext inp fine_element s (gp # gps) =
     (case gp_body ext inp fine_element s gp of
        Inl a \<Rightarrow> Inl a
      | Inr s' \<Rightarrow> gp_loop ext inp fine_element s' gps)"

text \<open>The loop over the fine elements; \<open>q_point.size()\<close> is read after \<open>fe_fine.reinit\<close>.\<close>

fun elem_loop :: "externals \<Rightarrow> inputs \<Rightarrow> state \<Rightarrow> Elem list \<Rightarrow> state outcome" where
  "elem_loop ext inp s [] = Inr s"
| "elem_loop ext inp s (fine_element # es) =
     (case gp_loop ext inp fine_element s [0..<length (get_xyz ext fine_element)] of
        Inl a \<Rightarrow> Inl a
      | Inr s' \<Rightarrow> elem_loop ext inp s' es)"

text \<open>
  The whole sweep, from the events \<open>evs\<close> so far and the difference field \<open>diff\<close> declared
  before it: the remembered element starts as the first coarse element, \<open>fe_coarse\<close> is
  reinitialised for it, and after the loop the square root is taken and printed.
\<close>

definition error_sweep :: "externals \<Rightarrow> inputs \<Rightarrow> real list \<Rightarrow> event list \<Rightarrow> state outcome" where
  "error_sweep ext inp diff evs =
     (case mesh_elems (mesh_coarse inp) of
        [] \<Rightarrow> Inl (Undefined, evs)
      | e0 # _ \<Rightarrow>
          (case elem_loop ext inp
                  \<lparr>error = 0, coarse_element = e0, fe_coarse = e0, diff_solution = diff,
                   already_done = [], events = evs @ [Fe_coarse_reinit e0]\<rparr>
                  (mesh_elems (mesh_fine inp)) of
             Inl a \<Rightarrow> Inl a
           | Inr s \<Rightarrow>
               Inr (s\<lparr>error := sqrt (error s),
                      events := events s @ [Cout_real ''Computed error='' (sqrt (error s))]\<rparr>)))"

subsection \<open>The nodal difference sweep (lines 220-274)\<close>

text \<open>Lines 258-270: the loop over the variables \<open>c\<close> of one node \<open>gn\<close>.\<close>

fun var_loop :: "externals \<Rightarrow> inputs \<Rightarrow> nat \<Rightarrow> nat \<Rightarrow> Point \<Rightarrow> state \<Rightarrow> nat list \<Rightarrow> state outcome" where
  "var_loop ext inp nv gn mapped_point s [] = Inr s"
| "var_loop ext inp nv gn mapped_point s (c # cs) =
     (case coarse_soln_loop ext (coarse_solution inp) nv (int c) (fe_coarse s) (coarse_element s)
             mapped_point [0..<n_shape_functions ext (fe_coarse s)] 0 of
        Inl f \<Rightarrow> Inl (f, events s)
      | Inr coarse_soln \<Rightarrow>
          (let k = field_index gn nv (int c) in
           if k < length (diff_solution s) \<and> k < length (fine_solution inp) then
             var_loop ext inp nv gn mapped_point
               (s\<lparr>diff_solution := (diff_solution s)[k := coarse_soln - fine_solution inp ! k]\<rparr>) cs
           else Inl (Undefined, events s)))"

text \<open>Lines 232-271: one node of one fine element.\<close>

definition node_body :: "externals \<Rightarrow> inputs \<Rightarrow> nat \<Rightarrow> state \<Rightarrow> nat \<Rightarrow> state outcome" where
  "node_body ext inp nv s gn =
     (if \<not> gn < length (already_done s) then Inl (Undefined, events s)
      else if already_done s ! gn then Inr s
      else
        (let s0 = s\<lparr>already_done := (already_done s)[gn := True]\<rparr> in
         if \<not> gn < length (mesh_points (mesh_fine inp)) then Inl (Undefined, events s0)
         else
           (let p = mesh_points (mesh_fine inp) ! gn in
            case locate ext (mesh_coarse inp) s0 p of
              Inl a \<Rightarrow> Inl a
            | Inr s1 \<Rightarrow>
                (let mapped_point = inverse_map ext (fe_coarse s1) (coarse_element s1) p;
                     s2 = s1\<lparr>events := events s1 @ [Inverse_map (fe_coarse s1) (coarse_element s1) p]\<rparr>
                 in var_loop ext inp nv gn mapped_point s2 [0..<nv]))))"

fun node_loop :: "externals \<Rightarrow> inputs \<Rightarrow> nat \<Rightarrow> state \<Rightarrow> nat list \<Rightarrow> state outcome" where
  "node_loop ext inp nv s [] = Inr s"
| "node_loop ext inp nv s (gn # gns) =
     (case node_body ext inp nv s gn of
        Inl a \<Rightarrow> Inl a
      | Inr s' \<Rightarrow> node_loop ext inp nv s' gns)"

fun diff_elem_loop :: "externals \<Rightarrow> inputs \<Rightarrow> nat \<Rightarrow> state \<Rightarrow> Elem list \<Rightarrow> state outcome" where
  "diff_elem_loop ext inp nv s [] = Inr s"
| "diff_elem_loop ext inp nv s (e # es) =
     (case node_loop ext inp nv s (elem_nodes e) of
        Inl a \<Rightarrow> Inl a
      | Inr s' \<Rightarrow> diff_elem_loop ext inp nv s' es)"

text \<open>
  The whole sweep, from the state \<open>s\<close> that the error sweep left: the markers are
  allocated, and a new variable \<open>coarse_element\<close> is set to the first coarse element
  (line 227). \<open>fe_coarse\<close> is the object of the error sweep and is not touched here.
\<close>

definition diff_sweep :: "externals \<Rightarrow> inputs \<Rightarrow> string list \<Rightarrow> state \<Rightarrow> state outcome" where
  "diff_sweep ext inp diff_var_names s =
     (case mesh_elems (mesh_coarse inp) of
        [] \<Rightarrow> Inl (Undefined, events s)
      | e0 # _ \<Rightarrow>
          diff_elem_loop ext inp (length diff_var_names)
            (s\<lparr>already_done := replicate (length (mesh_points (mesh_fine inp))) False,
               coarse_element := e0\<rparr>)
            (mesh_elems (mesh_fine inp)))"

subsection \<open>main\<close>

definition usage :: "string \<Rightarrow> string" where
  "usage argv0 = ''Usage: '' @ argv0 @ '' ivar m0.mesh m1.mesh s0.soln s1.soln''"

text \<open>Lines 43-78: the events of reading the two meshes and the two solutions.\<close>

definition reading_events :: "externals \<Rightarrow> string list \<Rightarrow> event list" where
  "reading_events ext argv =
     [Cout (''Reading Mesh '' @ argv ! 2), Read_mesh (argv ! 2),
      Cout (mesh_print_info ext (mesh_read ext (argv ! 2))),
      Cout (''Reading Mesh '' @ argv ! 3), Read_mesh (argv ! 3),
      Cout (mesh_print_info ext (mesh_read ext (argv ! 3))),
      Cout (''Reading Soln '' @ argv ! 4), Read_soln (argv ! 4),
      Cout (''Reading Soln '' @ argv ! 5), Read_soln (argv ! 5)]"

text \<open>
  \<open>argc\<close> is the length of \<open>argv\<close>. A run that reaches the end returns its events, which
  hold the printed error and the data given to the plot writer.
\<close>

definition main :: "externals \<Rightarrow> string list \<Rightarrow> event list outcome" where
  "main ext argv =
     (if length argv < 6 then
        (case argv of
           [] \<Rightarrow> Inl (Undefined, [])
         | argv0 # _ \<Rightarrow> Inl (Usage_error, [Cerr (usage argv0)]))
      else
        (let mesh_coarse' = mesh_read ext (argv ! 2);
             mesh_fine' = mesh_read ext (argv ! 3);
             (coarse_solution', coarse_var_names') = read_mgf_soln ext mesh_coarse' (argv ! 4);
             (fine_solution', fine_var_names') = read_mgf_soln ext mesh_fine' (argv ! 5);
             evs = reading_events ext argv
         in if fine_var_names' \<noteq> coarse_var_names' then
              Inl (Assertion_failed ''fine_var_names == coarse_var_names'', evs)
            else
              (let diff_solution' = replicate (length fine_solution') 0;
                   diff_var_names = fine_var_names';
                   evs1 = evs @ [Octree_build,
                                 Cout_nat ''n_active_bins() = '' (n_active_bins ext mesh_coarse')];
                   inp = \<lparr>mesh_coarse = mesh_coarse', mesh_fine = mesh_fine',
                          coarse_solution = coarse_solution', fine_solution = fine_solution',
                          coarse_var_names = coarse_var_names', fine_var_names = fine_var_names',
                          ivar = atoi ext (argv ! 1)\<rparr>
               in case error_sweep ext inp diff_solution' evs1 of
                    Inl a \<Rightarrow> Inl a
                  | Inr s \<Rightarrow>
                      (case diff_sweep ext inp diff_var_names s of
                         Inl a \<Rightarrow> Inl a
                       | Inr s' \<Rightarrow>
                           Inr (events s' @
                                [Write_nodal_data ''foo.plt'' (diff_solution s') diff_var_names])))))"

section \<open>The octree query\<close>

text \<open>
  Modelled from the spec: the octree (tree.h, \<open>Trees::OctTree\<close>) and its \<open>find_element\<close>
  are not under src/. Section 4.1 of the spec describes the query: a bin has a bounding
  region and is a leaf holding elements or has child bins; the query descends from the root
  into every child whose region contains the point, until an element is found or all are
  exhausted; at a leaf it runs the precise containment test on the leaf's elements in
  their order and returns the first that passes; it fails when no region or no element
  contains the point. The theorems on \<open>main\<close> hold for every \<open>find_element\<close>; this model
  gives the examples one that behaves as the spec says.
\<close>

record region =
  rmin :: Point
  rmax :: Point

definition region_contains :: "region \<Rightarrow> Point \<Rightarrow> bool" where
  "region_contains r p =
     (px (rmin r) \<le> px p \<and> px p \<le> px (rmax r) \<and>
      py (rmin r) \<le> py p \<and> py p \<le> py (rmax r) \<and>
      pz (rmin r) \<le> pz p \<and> pz p \<le> pz (rmax r))"

datatype bin = Leaf region "Elem list" | Branch region "bin list"

fun bin_find :: "(Elem \<Rightarrow> Point \<Rightarrow> bool) \<Rightarrow> Point \<Rightarrow> bin \<Rightarrow> Elem option"
  and bins_find :: "(Elem \<Rightarrow> Point \<Rightarrow> bool) \<Rightarrow> Point \<Rightarrow> bin list \<Rightarrow> Elem option" where
  "bin_find cp p (Leaf r es) = (if region_contains r p then List.find (\<lambda>e. cp e p) es else None)"
| "bin_find cp p (Branch r cs) = (if region_contains r p then bins_find cp p cs else None)"
| "bins_find cp p [] = None"
| "bins_find cp p (c # cs) =
     (case bin_find cp p c of Some e \<Rightarrow> Some e | None \<Rightarrow> bins_find cp p cs)"

section \<open>The cached point locator, as the spec describes it\<close>

text \<open>
  Sections 4.2 and 4.4 of the spec: one remembered element; a query tests the point
  against it; on a hit the remembered element is returned, on a miss the query goes to
  \<open>find_element\<close>, its result is remembered and the projector's state is reinitialised
  for it. The state of the locator is the pair of the remembered element and the element
  of the projector's state. \<open>located\<close> lists the states in which the locator answers a
  sequence of query points, and \<open>remembered\<close> is the state it is left in.
\<close>

definition locator_query :: "externals \<Rightarrow> Mesh \<Rightarrow> Elem \<times> Elem \<Rightarrow> Point \<Rightarrow> Elem \<times> Elem" where
  "locator_query ext mc l p =
     (if elem_contains_point ext (fst l) p then l
      else (case find_element ext mc p of Some e \<Rightarrow> (e, e) | None \<Rightarrow> l))"

fun located :: "externals \<Rightarrow> Mesh \<Rightarrow> Elem \<times> Elem \<Rightarrow> Point list \<Rightarrow> (Elem \<times> Elem) list" where
  "located ext mc l [] = []"
| "located ext mc l (p # ps) = locator_query ext mc l p # located ext mc (locator_query ext mc l p) ps"

definition remembered :: "externals \<Rightarrow> Mesh \<Rightarrow> Elem \<times> Elem \<Rightarrow> Point list \<Rightarrow> Elem \<times> Elem" where
  "remembered ext mc l ps = foldl (locator_query ext mc) l ps"

section \<open>The quantities of the claims\<close>

text \<open>
  The interpolation sums with the indices as the program computes them, in \<open>unsigned int\<close>:
  the coarse solution of variable \<open>v\<close> at the point \<open>p\<close> in the coarse element \<open>ce\<close>, with
  \<open>fe_coarse\<close> in state \<open>fe\<close>, and the fine solution at a Gauss point of a fine element.
\<close>

definition interpolated :: "externals \<Rightarrow> real list \<Rightarrow> nat \<Rightarrow> int \<Rightarrow> Elem \<Rightarrow> Elem \<Rightarrow> Point \<Rightarrow> real" where
  "interpolated ext soln nv v fe ce p =
     (\<Sum>i < n_shape_functions ext fe.
        soln ! field_index (elem_nodes ce ! i) nv v * shape ext fe ce i (inverse_map ext fe ce p))"

definition fine_interpolated :: "externals \<Rightarrow> inputs \<Rightarrow> Elem \<Rightarrow> nat \<Rightarrow> real" where
  "fine_interpolated ext inp e gp =
     (\<Sum>i < length (elem_nodes e).
        fine_solution inp ! field_index (elem_nodes e ! i) (length (fine_var_names inp)) (ivar inp)
          * (get_phi ext e ! i ! gp))"

text \<open>
  The same sums as the claims and the spec's data model write them, with the value of
  node \<open>n\<close> and variable \<open>v\<close> at index \<open>n * variable_count + v\<close>, and the coarse element's
  own inverse map and shape functions.
\<close>

definition coarse_value :: "externals \<Rightarrow> real list \<Rightarrow> nat \<Rightarrow> nat \<Rightarrow> Elem \<Rightarrow> Point \<Rightarrow> real" where
  "coarse_value ext soln nv v ce p =
     (\<Sum>i < n_shape_functions ext ce.
        soln ! (elem_nodes ce ! i * nv + v) * shape ext ce ce i (inverse_map ext ce ce p))"

definition fine_value :: "externals \<Rightarrow> real list \<Rightarrow> nat \<Rightarrow> nat \<Rightarrow> Elem \<Rightarrow> nat \<Rightarrow> real" where
  "fine_value ext soln nv v e gp =
     (\<Sum>i < length (elem_nodes e). soln ! (elem_nodes e ! i * nv + v) * (get_phi ext e ! i ! gp))"

text \<open>
  The index of every node of an element is below \<open>2^32\<close>, where \<open>unsigned int\<close>
  arithmetic is exact.
\<close>

definition in_unsigned_range :: "nat \<Rightarrow> int \<Rightarrow> Elem \<Rightarrow> bool" where
  "in_unsigned_range nv v e = list_all (\<lambda>gn. int gn * int nv + v < 4294967296) (elem_nodes e)"

text \<open>
  The quadrature points of the error sweep in the order of the loops, as pairs of a fine
  element and the number of a Gauss point, and their positions.
\<close>

definition quadrature :: "externals \<Rightarrow> Elem list \<Rightarrow> (Elem \<times> nat) list" where
  "quadrature ext es = concat (map (\<lambda>e. map (Pair e) [0..<length (get_xyz ext e)]) es)"

definition q_point :: "externals \<Rightarrow> Elem \<times> nat \<Rightarrow> Point" where
  "q_point ext q = get_xyz ext (fst q) ! snd q"

text \<open>
  The events that answering one query point adds, from locator state \<open>l\<close> to \<open>l'\<close>: on a
  miss the octree query and the reinitialisation, then the call of the inverse map; and the
  events of a sequence of query points.
\<close>

definition point_events :: "externals \<Rightarrow> Elem \<times> Elem \<Rightarrow> Elem \<times> Elem \<Rightarrow> Point \<Rightarrow> event list" where
  "point_events ext l l' p =
     (if elem_contains_point ext (fst l) p then [] else [Find_element p, Fe_coarse_reinit (fst l')])
     @ [Inverse_map (snd l') (fst l') p]"

fun sweep_events :: "externals \<Rightarrow> Mesh \<Rightarrow> Elem \<times> Elem \<Rightarrow> Point list \<Rightarrow> event list" where
  "sweep_events ext mc l [] = []"
| "sweep_events ext mc l (p # ps) =
     point_events ext l (locator_query ext mc l p) p @ sweep_events ext mc (locator_query ext mc l p) ps"

text \<open>
  A located element answers a point when it passed the containment test or is what
  \<open>find_element\<close> returned for the point; it fits \<open>fe_coarse\<close> when the element has a
  node for every shape function.
\<close>

definition found :: "externals \<Rightarrow> Mesh \<Rightarrow> Point \<Rightarrow> Elem \<times> Elem \<Rightarrow> bool" where
  "found ext mc p l = (elem_contains_point ext (fst l) p \<or> find_element ext mc p = Some (fst l))"

definition fits :: "externals \<Rightarrow> Elem \<times> Elem \<Rightarrow> bool" where
  "fits ext l = (n_shape_functions ext (snd l) \<le> length (elem_nodes (fst l)))"

text \<open>
  The term that one quadrature point adds to the error: with the sums as the program
  computes them (\<open>error_term\<close>), and as the claim writes them (\<open>l2_term\<close>).
\<close>

definition error_term :: "externals \<Rightarrow> inputs \<Rightarrow> Elem \<times> nat \<Rightarrow> Elem \<times> Elem \<Rightarrow> real" where
  "error_term ext inp q l =
     get_JxW ext (fst q) ! snd q *
       (interpolated ext (coarse_solution inp) (length (coarse_var_names inp)) (ivar inp) (snd l) (fst l) (q_point ext q)
        - fine_interpolated ext inp (fst q) (snd q))\<^sup>2"

definition l2_term :: "externals \<Rightarrow> inputs \<Rightarrow> Elem \<times> nat \<Rightarrow> Elem \<Rightarrow> real" where
  "l2_term ext inp q ce =
     get_JxW ext (fst q) ! snd q *
       (coarse_value ext (coarse_solution inp) (length (coarse_var_names inp)) (nat (ivar inp)) ce (q_point ext q)
        - fine_value ext (fine_solution inp) (length (fine_var_names inp)) (nat (ivar inp)) (fst q) (snd q))\<^sup>2"

text \<open>
  The positions of the quadrature points of the error sweep, the locator states in which
  they are answered (the sweep starts at the first coarse element), and the coarse
  elements located for them.
\<close>

definition quadrature_points :: "externals \<Rightarrow> inputs \<Rightarrow> Point list" where
  "quadrature_points ext inp = map (q_point ext) (quadrature ext (mesh_elems (mesh_fine inp)))"

definition error_sweep_located :: "externals \<Rightarrow> inputs \<Rightarrow> (Elem \<times> Elem) list" where
  "error_sweep_located ext inp =
     located ext (mesh_coarse inp)
       (hd (mesh_elems (mesh_coarse inp)), hd (mesh_elems (mesh_coarse inp)))
       (quadrature_points ext inp)"

definition error_sweep_elements :: "externals \<Rightarrow> inputs \<Rightarrow> Elem list" where
  "error_sweep_elements ext inp = map fst (error_sweep_located ext inp)"

text \<open>
  The nodal difference sweep. \<open>first_visits\<close> lists the node numbers of a sequence in
  the order of their first occurrence; \<open>fine_nodes\<close> is that list for the nodes of the fine
  elements in the order of the loops: the nodes that the sweep processes. \<open>unvisited\<close> and
  \<open>mark_all\<close> describe the markers in the middle of the sweep.
\<close>

fun first_visits :: "nat list \<Rightarrow> nat list" where
  "first_visits [] = []"
| "first_visits (n # ns) = n # filter (\<lambda>m. m \<noteq> n) (first_visits ns)"

definition unvisited :: "bool list \<Rightarrow> nat list \<Rightarrow> nat list" where
  "unvisited marks ns = filter (\<lambda>n. \<not> marks ! n) (first_visits ns)"

definition mark_all :: "nat list \<Rightarrow> bool list \<Rightarrow> bool list" where
  "mark_all ns marks = fold (\<lambda>n d. d[n := True]) ns marks"

definition fine_point :: "inputs \<Rightarrow> nat \<Rightarrow> Point" where
  "fine_point inp gn = mesh_points (mesh_fine inp) ! gn"

definition fine_nodes :: "inputs \<Rightarrow> nat list" where
  "fine_nodes inp = first_visits (concat (map elem_nodes (mesh_elems (mesh_fine inp))))"

text \<open>
  The writes into the difference field, as pairs of an index and a value: for one variable
  of one node located in state \<open>l\<close>, for all variables of a node, and for a list of located
  nodes; and the field after a list of writes.
\<close>

definition apply_writes :: "(nat \<times> real) list \<Rightarrow> real list \<Rightarrow> real list" where
  "apply_writes ws d = fold (\<lambda>w d. d[fst w := snd w]) ws d"

definition var_write :: "externals \<Rightarrow> inputs \<Rightarrow> nat \<Rightarrow> nat \<Rightarrow> Elem \<times> Elem \<Rightarrow> nat \<Rightarrow> nat \<times> real" where
  "var_write ext inp nv gn l c =
     (field_index gn nv (int c),
      interpolated ext (coarse_solution inp) nv (int c) (snd l) (fst l) (mesh_points (mesh_fine inp) ! gn)
        - fine_solution inp ! field_index gn nv (int c))"

definition node_writes :: "externals \<Rightarrow> inputs \<Rightarrow> nat \<Rightarrow> nat \<times> Elem \<times> Elem \<Rightarrow> (nat \<times> real) list" where
  "node_writes ext inp nv v = map (var_write ext inp nv (fst v) (snd v)) [0..<nv]"

definition sweep_writes :: "externals \<Rightarrow> inputs \<Rightarrow> nat \<Rightarrow> (nat \<times> Elem \<times> Elem) list \<Rightarrow> (nat \<times> real) list" where
  "sweep_writes ext inp nv vs = concat (map (node_writes ext inp nv) vs)"

text \<open>
  What \<open>main\<close> has read when the sweeps start and the events up to there; the locator
  state in which each sweep starts (the nodal sweep resets the remembered element and
  keeps the state of \<open>fe_coarse\<close> that the error sweep left), and the states in which the
  nodes are answered.
\<close>

definition main_inputs :: "externals \<Rightarrow> string list \<Rightarrow> inputs" where
  "main_inputs ext argv =
     \<lparr>mesh_coarse = mesh_read ext (argv ! 2), mesh_fine = mesh_read ext (argv ! 3),
      coarse_solution = fst (read_mgf_soln ext (mesh_read ext (argv ! 2)) (argv ! 4)),
      fine_solution = fst (read_mgf_soln ext (mesh_read ext (argv ! 3)) (argv ! 5)),
      coarse_var_names = snd (read_mgf_soln ext (mesh_read ext (argv ! 2)) (argv ! 4)),
      fine_var_names = snd (read_mgf_soln ext (mesh_read ext (argv ! 3)) (argv ! 5)),
      ivar = atoi ext (argv ! 1)\<rparr>"

definition sweep_start_events :: "externals \<Rightarrow> string list \<Rightarrow> event list" where
  "sweep_start_events ext argv =
     reading_events ext argv @
     [Octree_build, Cout_nat ''n_active_bins() = '' (n_active_bins ext (mesh_read ext (argv ! 2)))]"

definition error_sweep_start :: "inputs \<Rightarrow> Elem \<times> Elem" where
  "error_sweep_start inp = (hd (mesh_elems (mesh_coarse inp)), hd (mesh_elems (mesh_coarse inp)))"

definition diff_sweep_start :: "externals \<Rightarrow> inputs \<Rightarrow> Elem \<times> Elem" where
  "diff_sweep_start ext inp =
     (hd (mesh_elems (mesh_coarse inp)),
      snd (remembered ext (mesh_coarse inp) (error_sweep_start inp) (quadrature_points ext inp)))"

definition diff_sweep_located :: "externals \<Rightarrow> inputs \<Rightarrow> (Elem \<times> Elem) list" where
  "diff_sweep_located ext inp =
     located ext (mesh_coarse inp) (diff_sweep_start ext inp) (map (fine_point inp) (fine_nodes inp))"

text \<open>
  The events of a run of \<open>main\<close>, whether it reaches its end or not, and the points for
  which the inverse map was called, in program order.
\<close>

definition main_events :: "event list outcome \<Rightarrow> event list" where
  "main_events r = (case r of Inl a \<Rightarrow> snd a | Inr evs \<Rightarrow> evs)"

fun mapped_point :: "event \<Rightarrow> Point list" where
  "mapped_point (Inverse_map fe e p) = [p]"
| "mapped_point ev = []"

definition mapped_points :: "event list \<Rightarrow> Point list" where
  "mapped_points evs = concat (map mapped_point evs)"

text \<open>
  An event is in order when it is no lookup that failed and no interpolation in an
  element that neither contains the point nor was found for it. A run is in order when
  all its events are, or when it is the failed assertion right after a lookup that found
  nothing, with all events before that lookup in order.
\<close>

definition event_ok :: "externals \<Rightarrow> Mesh \<Rightarrow> event \<Rightarrow> bool" where
  "event_ok ext mc ev =
     (case ev of
        Inverse_map fe e p \<Rightarrow> found ext mc p (e, fe)
      | Find_element p \<Rightarrow> find_element ext mc p \<noteq> None
      | _ \<Rightarrow> True)"

definition answered :: "externals \<Rightarrow> Mesh \<Rightarrow> event list \<Rightarrow> bool" where
  "answered ext mc evs = list_all (event_ok ext mc) evs"

definition lookup_failure :: "externals \<Rightarrow> Mesh \<Rightarrow> failure \<times> event list \<Rightarrow> bool" where
  "lookup_failure ext mc a =
     (\<exists>evs p. a = (Assertion_failed ''coarse_element != NULL'', evs @ [Find_element p])
        \<and> find_element ext mc p = None \<and> answered ext mc evs)"

definition good_outcome :: "externals \<Rightarrow> Mesh \<Rightarrow> state outcome \<Rightarrow> bool" where
  "good_outcome ext mc r =
     (case r of
        Inr s \<Rightarrow> answered ext mc (events s)
      | Inl a \<Rightarrow> answered ext mc (snd a) \<or> lookup_failure ext mc a)"

definition good_run :: "externals \<Rightarrow> Mesh \<Rightarrow> event list outcome \<Rightarrow> bool" where
  "good_run ext mc r =
     (case r of
        Inr evs \<Rightarrow> answered ext mc evs
      | Inl a \<Rightarrow> answered ext mc (snd a) \<or> lookup_failure ext mc a)"

text \<open>
  The calls of the inverse map that were made while \<open>fe_coarse\<close> was last reinitialised
  for another element than the one of the call.
\<close>

definition stale_maps :: "event list \<Rightarrow> event list" where
  "stale_maps evs = filter (\<lambda>ev. case ev of Inverse_map fe e p \<Rightarrow> fe \<noteq> e | _ \<Rightarrow> False) evs"

text \<open>
  The elements used for interpolation in a run, in program order: the element of each
  call of the inverse map. \<open>selects r ps es\<close> says of a sequence of query points \<open>ps\<close>,
  answered from the remembered element \<open>r\<close> on, and of the elements \<open>es\<close> used for them,
  what the cached locator is to do: on a hit the element used is the remembered one, on a
  miss it is the element that \<open>find_element\<close> returns for the point, and the element used
  is the one remembered for the next point.
\<close>

fun used_element :: "event \<Rightarrow> Elem list" where
  "used_element (Inverse_map fe e p) = [e]"
| "used_element ev = []"

definition used_elements :: "event list \<Rightarrow> Elem list" where
  "used_elements evs = concat (map used_element evs)"

fun selects :: "externals \<Rightarrow> Mesh \<Rightarrow> Elem \<Rightarrow> Point list \<Rightarrow> Elem list \<Rightarrow> bool" where
  "selects ext mc r [] [] = True"
| "selects ext mc r (p # ps) (e # es) =
     ((if elem_contains_point ext r p then e = r else find_element ext mc p = Some e)
      \<and> selects ext mc e ps es)"
| "selects ext mc r [] (e # es) = False"
| "selects ext mc r (p # ps) [] = False"

text \<open>
  The octree over a mesh returns elements of that mesh; an event, and an outcome of a
  part of \<open>main\<close>, in which every element used for interpolation, and the remembered
  element, is an element of the coarse mesh.
\<close>

definition finds_in_mesh :: "externals \<Rightarrow> Mesh \<Rightarrow> bool" where
  "finds_in_mesh ext mc = (\<forall>q a. find_element ext mc q = Some a \<longrightarrow> a \<in> set (mesh_elems mc))"

definition in_mesh :: "Mesh \<Rightarrow> event \<Rightarrow> bool" where
  "in_mesh mc ev = (case ev of Inverse_map fe e p \<Rightarrow> e \<in> set (mesh_elems mc) | _ \<Rightarrow> True)"

definition mesh_outcome :: "Mesh \<Rightarrow> state outcome \<Rightarrow> bool" where
  "mesh_outcome mc r =
     (case r of
        Inr s \<Rightarrow> coarse_element s \<in> set (mesh_elems mc) \<and> list_all (in_mesh mc) (events s)
      | Inl a \<Rightarrow> list_all (in_mesh mc) (snd a))"

section \<open>A small instance\<close>

text \<open>
  Two cells in a row on the x axis, \<open>cell 0\<close> from 0 to 1 and \<open>cell 1\<close> from 1 to 2, with
  nodes 0, 1, 2 at x = 0, 1, 2. A cell (an element with nodes k and k + 1 in this order)
  contains the points of its closed interval and no other element contains a point, its
  reference coordinate runs from 0 to 1, it has two linear shape functions and one
  quadrature point, its midpoint, of weight 1. The octree is a single leaf with both
  coarse cells. The files: m0.mesh and m1.mesh hold the two cells, flipped.mesh holds the
  same cells listed from the right (\<open>cell 1\<close> with its nodes as 2, 1 first), far.mesh
  holds one cell whose quadrature point is in the domain and whose second node is at
  x = 1000; s0.soln and s1.soln hold one variable u, t.soln holds one variable T.
\<close>

definition pt :: "real \<Rightarrow> Point" where
  "pt x = \<lparr>px = x, py = 0, pz = 0\<rparr>"

definition cell :: "nat \<Rightarrow> Elem" where
  "cell k = \<lparr>elem_id = k, elem_nodes = [k, k + 1]\<rparr>"

definition flipped_cell :: "nat \<Rightarrow> Elem" where
  "flipped_cell k = \<lparr>elem_id = k, elem_nodes = [k + 1, k]\<rparr>"

definition chain_mesh :: Mesh where
  "chain_mesh = \<lparr>mesh_elems = [cell 0, cell 1], mesh_points = [pt 0, pt 1, pt 2]\<rparr>"

definition flipped_mesh :: Mesh where
  "flipped_mesh = \<lparr>mesh_elems = [flipped_cell 1, flipped_cell 0], mesh_points = [pt 0, pt 1, pt 2]\<rparr>"

definition far_mesh :: Mesh where
  "far_mesh = \<lparr>mesh_elems = [cell 0], mesh_points = [pt 0, pt 1000]\<rparr>"

definition cell_contains :: "Elem \<Rightarrow> Point \<Rightarrow> bool" where
  "cell_contains e p =
     (elem_nodes e = [elem_id e, elem_id e + 1] \<and>
      real (elem_id e) \<le> px p \<and> px p \<le> real (elem_id e) + 1)"

definition chain_tree :: bin where
  "chain_tree = Leaf \<lparr>rmin = pt 0, rmax = pt 2\<rparr> [cell 0, cell 1]"

definition chain_ext :: externals where
  "chain_ext =
     \<lparr>atoi = (\<lambda>a. if a = ''1'' then 1 else 0),
      mesh_read = (\<lambda>path. if path = ''flipped.mesh'' then flipped_mesh
                           else if path = ''far.mesh'' then far_mesh else chain_mesh),
      mesh_print_info = (\<lambda>m. ''Mesh Information''),
      read_mgf_soln = (\<lambda>m path. if path = ''s1.soln'' then ([0, 1, 4], [''u''])
                                 else if path = ''t.soln'' then ([0, 1, 2], [''T''])
                                 else ([0, 1, 2], [''u''])),
      n_active_bins = (\<lambda>m. 1),
      find_element = (\<lambda>m p. bin_find cell_contains p chain_tree),
      elem_contains_point = cell_contains,
      get_JxW = (\<lambda>e. [1]),
      get_xyz = (\<lambda>e. [pt (real (elem_id e) + 1 / 2)]),
      get_phi = (\<lambda>e. [[1 / 2], [1 / 2]]),
      n_shape_functions = (\<lambda>e. 2),
      inverse_map = (\<lambda>fe e p. pt (px p - real (elem_id e))),
      shape = (\<lambda>fe e i xi. if i = 0 then 1 - px xi else px xi)\<rparr>"

text \<open>What \<open>main\<close> reads from m0.mesh, m1.mesh, s0.soln and s1.soln with \<open>ivar\<close> 0.\<close>

definition chain_inp :: inputs where
  "chain_inp = \<lparr>mesh_coarse = chain_mesh, mesh_fine = chain_mesh,
      coarse_solution = [0, 1, 2], fine_solution = [0, 1, 4],
      coarse_var_names = [''u''], fine_var_names = [''u''], ivar = 0\<rparr>"

text \<open>The command line of the instance.\<close>

definition chain_argv :: "string list" where
  "chain_argv = [''meshdiff'', ''0'', ''m0.mesh'', ''m1.mesh'', ''s0.soln'', ''s1.soln'']"

text \<open>
  Two more command lines: the fine mesh listed from the right, and the fine mesh with a
  node outside the coarse mesh; what \<open>main\<close> reads for them, and the events of a run up to
  the sweeps for the fine mesh file \<open>m1\<close> and the fine solution file \<open>s1\<close>.
\<close>

definition flipped_argv :: "string list" where
  "flipped_argv = [''meshdiff'', ''0'', ''m0.mesh'', ''flipped.mesh'', ''s0.soln'', ''s1.soln'']"


definition flipped_inp :: inputs where
  "flipped_inp = \<lparr>mesh_coarse = chain_mesh, mesh_fine = flipped_mesh,
      coarse_solution = [0, 1, 2], fine_solution = [0, 1, 4],
      coarse_var_names = [''u''], fine_var_names = [''u''], ivar = 0\<rparr>"


definition chain_start :: "string \<Rightarrow> string \<Rightarrow> event list" where
  "chain_start m1 s1 =
     [Cout ''Reading Mesh m0.mesh'', Read_mesh ''m0.mesh'', Cout ''Mesh Information'',
      Cout (''Reading Mesh '' @ m1), Read_mesh m1, Cout ''Mesh Information'',
      Cout ''Reading Soln s0.soln'', Read_soln ''s0.soln'',
      Cout (''Reading Soln '' @ s1), Read_soln s1,
      Octree_build, Cout_nat ''n_active_bins() = '' 1]"

text \<open>
  A mesh with two kinds of elements on the x axis with nodes 0, 1, 2, 3 at x = 0, 1, 2, 3:
  \<open>bar3\<close>, a quadratic element from 0 to 2 with its end nodes 0 and 2 first and its
  middle node 1 last, and \<open>bar2\<close>, a linear element from 2 to 3. The reference coordinate
  of an element runs from 0 to 1; \<open>lagrange n i\<close> is shape function \<open>i\<close> of the element
  with \<open>n\<close> nodes. The finite element object has as many shape functions as the element
  of its last \<open>reinit\<close> has nodes; the inverse map and the shape functions are those of
  the element that is passed to them. The quadrature points are x = 1/2 in \<open>bar3\<close> and
  x = 5/2 in \<open>bar2\<close>. Both mesh arguments of the command line name the one file m.mesh,
  both solution arguments the one file s.soln, which holds the variable u with the value x
  at every node.
\<close>

definition bar3 :: Elem where
  "bar3 = \<lparr>elem_id = 0, elem_nodes = [0, 2, 1]\<rparr>"

definition bar2 :: Elem where
  "bar2 = \<lparr>elem_id = 1, elem_nodes = [2, 3]\<rparr>"

definition mixed_mesh :: Mesh where
  "mixed_mesh = \<lparr>mesh_elems = [bar3, bar2], mesh_points = [pt 0, pt 1, pt 2, pt 3]\<rparr>"

definition mixed_contains :: "Elem \<Rightarrow> Point \<Rightarrow> bool" where
  "mixed_contains e p = (if elem_id e = 0 then 0 \<le> px p \<and> px p \<le> 2 else 2 \<le> px p \<and> px p \<le> 3)"

definition lagrange :: "nat \<Rightarrow> nat \<Rightarrow> real \<Rightarrow> real" where
  "lagrange n i xi =
     (if n = 3 then (if i = 0 then (1 - xi) * (1 - 2 * xi)
                     else if i = 1 then xi * (2 * xi - 1) else 4 * xi * (1 - xi))
      else (if i = 0 then 1 - xi else xi))"

definition mixed_ext :: externals where
  "mixed_ext =
     \<lparr>atoi = (\<lambda>a. 0),
      mesh_read = (\<lambda>path. mixed_mesh),
      mesh_print_info = (\<lambda>m. ''Mesh Information''),
      read_mgf_soln = (\<lambda>m path. ([0, 1, 2, 3], [''u''])),
      n_active_bins = (\<lambda>m. 1),
      find_element = (\<lambda>m p. bin_find mixed_contains p (Leaf \<lparr>rmin = pt 0, rmax = pt 3\<rparr> [bar3, bar2])),
      elem_contains_point = mixed_contains,
      get_JxW = (\<lambda>e. if elem_id e = 0 then [2] else [1]),
      get_xyz = (\<lambda>e. if elem_id e = 0 then [pt (1 / 2)] else [pt (5 / 2)]),
      get_phi = (\<lambda>e. if elem_id e = 0 then [[3 / 8], [- 1 / 8], [3 / 4]] else [[1 / 2], [1 / 2]]),
      n_shape_functions = (\<lambda>fe. length (elem_nodes fe)),
      inverse_map = (\<lambda>fe e p. if elem_id e = 0 then pt (px p / 2) else pt (px p - 2)),
      shape = (\<lambda>fe e i xi. lagrange (length (elem_nodes e)) i (px xi))\<rparr>"

definition mixed_argv :: "string list" where
  "mixed_argv = [''meshdiff'', ''0'', ''m.mesh'', ''m.mesh'', ''s.soln'', ''s.soln'']"

definition mixed_inp :: inputs where
  "mixed_inp = \<lparr>mesh_coarse = mixed_mesh, mesh_fine = mixed_mesh,
      coarse_solution = [0, 1, 2, 3], fine_solution = [0, 1, 2, 3],
      coarse_var_names = [''u''], fine_var_names = [''u''], ivar = 0\<rparr>"

definition mixed_start :: "event list" where
  "mixed_start =
     [Cout ''Reading Mesh m.mesh'', Read_mesh ''m.mesh'', Cout ''Mesh Information'',
      Cout ''Reading Mesh m.mesh'', Read_mesh ''m.mesh'', Cout ''Mesh Information'',
      Cout ''Reading Soln s.soln'', Read_soln ''s.soln'',
      Cout ''Reading Soln s.soln'', Read_soln ''s.soln'',
      Octree_build, Cout_nat ''n_active_bins() = '' 1]"

text \<open>
  Infinite hexahedra with the origin at zero and the four base nodes on the x and y axes
  at distance \<open>r\<close> from it, and a stub of the finite element interface: the inverse map
  returns the point itself, and a point is on the reference element when its first two
  coordinates are within \<open>2 + tol\<close> of zero and its third is not below \<open>-tol\<close>. Three
  points: at distance 1/2 from the origin; at (1/2, 1/2, 3); and on the x axis at
  \<open>4621288154019789 * 2^-52\<close>, which is about 1.0261.
\<close>

definition dpt :: "double \<Rightarrow> double \<Rightarrow> double \<Rightarrow> Point_d" where
  "dpt x y z = \<lparr>x_d = x, y_d = y, z_d = z\<rparr>"

definition square_infhex :: "double \<Rightarrow> InfHex8" where
  "square_infhex r =
     \<lparr>point = (\<lambda>i. if i = 0 then dpt r (Finite 0 0) (Finite 0 0)
                    else if i = 1 then dpt (Finite 0 0) r (Finite 0 0)
                    else if i = 2 then dpt (dneg r) (Finite 0 0) (Finite 0 0)
                    else if i = 3 then dpt (Finite 0 0) (dneg r) (Finite 0 0)
                    else dpt (Finite 0 0) (Finite 0 0) r),
      origin = dpt (Finite 0 0) (Finite 0 0) (Finite 0 0)\<rparr>"

definition identity_fei :: FEInterface where
  "identity_fei =
     \<lparr>fei_inverse_map = (\<lambda>e p tol secure. p),
      fei_on_reference_element =
        (\<lambda>q tol. \<not> dless (dadd (Finite 2 0) tol) (x_d q) \<and> \<not> dless (x_d q) (dneg (dadd (Finite 2 0) tol))
                \<and> \<not> dless (dadd (Finite 2 0) tol) (y_d q) \<and> \<not> dless (y_d q) (dneg (dadd (Finite 2 0) tol))
                \<and> \<not> dless (z_d q) (dneg tol))\<rparr>"

definition half_point :: Point_d where
  "half_point = dpt (Finite 1 (- 1)) (Finite 0 0) (Finite 0 0)"

definition outer_point :: Point_d where
  "outer_point = dpt (Finite 1 (- 1)) (Finite 1 (- 1)) (Finite 3 0)"

definition near_point :: Point_d where
  "near_point = dpt (Finite 4621288154019789 (- 52)) (Finite 0 0) (Finite 0 0)"

section \<open>Theorems: InfHex8\<close>

subsection \<open>The comparison of doubles\<close>

lemma scale_to_exponent:
  fixes m e1 e :: int
  assumes "e \<le> e1"
  shows "(of_int (m * 2 ^ nat (e1 - e)) :: real) * power_int 2 e = of_int m * power_int 2 e1"
proof -
  have "(of_int (m * 2 ^ nat (e1 - e)) :: real) = of_int m * power_int 2 (e1 - e)"
    using assms by (simp add: power_int_def)
  also have "\<dots> * power_int 2 e = of_int m * power_int 2 e1"
    by (simp add: power_int_diff)
  finally show ?thesis .
qed

lemma dless_Finite:
  "dless (Finite m1 e1) (Finite m2 e2) \<longleftrightarrow> value_of (Finite m1 e1) < value_of (Finite m2 e2)"
proof -
  define e where "e = min e1 e2"
  have p: "(0::real) < power_int 2 e" by simp
  have s1: "(of_int (m1 * 2 ^ nat (e1 - e)) :: real) * power_int 2 e = of_int m1 * power_int 2 e1"
    by (rule scale_to_exponent) (simp add: e_def)
  have s2: "(of_int (m2 * 2 ^ nat (e2 - e)) :: real) * power_int 2 e = of_int m2 * power_int 2 e2"
    by (rule scale_to_exponent) (simp add: e_def)
  have "dless (Finite m1 e1) (Finite m2 e2) \<longleftrightarrow> m1 * 2 ^ nat (e1 - e) < m2 * 2 ^ nat (e2 - e)"
    by (simp add: e_def Let_def)
  also have "\<dots> \<longleftrightarrow> (of_int (m1 * 2 ^ nat (e1 - e)) :: real) < of_int (m2 * 2 ^ nat (e2 - e))"
    by (simp only: of_int_less_iff)
  also have "\<dots> \<longleftrightarrow> (of_int (m1 * 2 ^ nat (e1 - e)) :: real) * power_int 2 e
                     < of_int (m2 * 2 ^ nat (e2 - e)) * power_int 2 e"
    using p by (simp only: mult_less_cancel_right_pos)
  also have "\<dots> \<longleftrightarrow> value_of (Finite m1 e1) < value_of (Finite m2 e2)"
    by (simp only: s1 s2 value_of.simps)
  finally show ?thesis .
qed

lemma dless_value: "is_finite a \<Longrightarrow> is_finite b \<Longrightarrow> dless a b \<longleftrightarrow> value_of a < value_of b"
  by (cases a; cases b) (simp_all only: dless_Finite is_finite.simps)

lemma std_min_finite:
  "is_finite a \<Longrightarrow> is_finite b \<Longrightarrow>
   is_finite (std_min a b) \<and> value_of (std_min a b) = min (value_of a) (value_of b)"
  by (auto simp: std_min_def dless_value)

lemma least_base_dist_sq_finite:
  assumes "\<forall>i \<in> {0, 1, 2, 3}. is_finite (base_dist_sq elem i)"
  shows "is_finite (least_base_dist_sq elem)"
    and "value_of (least_base_dist_sq elem) = Min ((\<lambda>i. value_of (base_dist_sq elem i)) ` {0, 1, 2, 3})"
proof -
  from assms have f: "is_finite (base_dist_sq elem 0)" "is_finite (base_dist_sq elem 1)"
    "is_finite (base_dist_sq elem 2)" "is_finite (base_dist_sq elem 3)"
    by simp_all
  note a = std_min_finite [OF f(3) f(4)]
  note b = std_min_finite [OF f(2) conjunct1 [OF a]]
  note c = std_min_finite [OF f(1) conjunct1 [OF b]]
  from c show "is_finite (least_base_dist_sq elem)" by (simp add: least_base_dist_sq_def)
  from a b c show "value_of (least_base_dist_sq elem) = Min ((\<lambda>i. value_of (base_dist_sq elem i)) ` {0, 1, 2, 3})"
    by (simp add: least_base_dist_sq_def)
qed

text \<open>The literal is within half a unit in the last place of 101/100.\<close>

lemma literal_1_01_nearest: "\<bar>value_of literal_1_01 - 101 / 100\<bar> * 2 ^ 53 < 1"
  by (simp add: literal_1_01_def power_int_minus)

subsection \<open>contains_point\<close>

lemma contains_point_branches:
  "contains_point fei elem p tol =
      (if dless (conservative_dist_sq elem p) (least_base_dist_sq elem) then (False, [])
       else (fei_on_reference_element fei (fei_inverse_map fei elem p tol False) tol,
             [Inverse_map_call p tol False]))"
  by (simp add: contains_point_def conservative_dist_sq_def least_base_dist_sq_def base_dist_sq_def Let_def)

text \<open>
  Claim C9, as the code has it. The test is made on computed doubles. For every point
  \<open>p\<close> and tolerance \<open>tol\<close>: if the product, in double arithmetic, of the literal 1.01 and
  the computed squared distance of \<open>p\<close> from the element's origin is less, in the
  comparison of doubles, than the least of the four computed squared distances of the
  base nodes from the origin, \<open>contains_point\<close> returns false and has not called the
  inverse map; otherwise (also when a NaN makes the comparison false) it has called the
  inverse map once, on \<open>p\<close> with \<open>tol\<close>, and returns whether the mapped point is on the
  reference element within \<open>tol\<close>. When the five computed quantities are finite, the
  comparison is the comparison of their values, and the least is the minimum of the four
  values.
\<close>

theorem contains_point_envelope:
  "(dless (conservative_dist_sq elem p) (least_base_dist_sq elem)
      \<longrightarrow> contains_point fei elem p tol = (False, []))
   \<and> (\<not> dless (conservative_dist_sq elem p) (least_base_dist_sq elem)
      \<longrightarrow> contains_point fei elem p tol =
            (fei_on_reference_element fei (fei_inverse_map fei elem p tol False) tol,
             [Inverse_map_call p tol False]))
   \<and> (is_finite (conservative_dist_sq elem p) \<and> (\<forall>i \<in> {0, 1, 2, 3}. is_finite (base_dist_sq elem i))
      \<longrightarrow> (dless (conservative_dist_sq elem p) (least_base_dist_sq elem)
           \<longleftrightarrow> value_of (conservative_dist_sq elem p)
               < Min ((\<lambda>i. value_of (base_dist_sq elem i)) ` {0, 1, 2, 3})))"
proof -
  note 1 = contains_point_branches [of fei elem p tol]
  have 2: "dless (conservative_dist_sq elem p) (least_base_dist_sq elem)
           \<longleftrightarrow> value_of (conservative_dist_sq elem p)
               < Min ((\<lambda>i. value_of (base_dist_sq elem i)) ` {0, 1, 2, 3})"
    if c: "is_finite (conservative_dist_sq elem p)"
      and b: "\<forall>i \<in> {0, 1, 2, 3}. is_finite (base_dist_sq elem i)"
    using dless_value [OF c least_base_dist_sq_finite(1) [OF b]] least_base_dist_sq_finite(2) [OF b]
    by simp
  from 1 2 show ?thesis by simp
qed

subsection \<open>Computed instances\<close>

lemma bit_length_numeral:
  "bit_length (numeral k) = 1 + bit_length (numeral k div 2)" "bit_length 0 = 0" "bit_length 1 = 1"
  by (simp_all add: bit_length.simps)

lemmas double_eval = round_to_double_def round_half_even_def bit_length_numeral Let_def dsub_def
  std_min_def norm_sq_def point_sub_def literal_1_01_def dpt_def

text \<open>
  Sample results of the arithmetic: 0.1 * 0.1 and 1 + 0.1 * 0.1 (which is the double
  1.01), a product that underflows to zero, a sum that overflows, and a tie rounded to
  the even neighbour.
\<close>

lemma double_samples:
  "dmul (Finite 7205759403792794 (- 56)) (Finite 7205759403792794 (- 56)) = Finite 5764607523034236 (- 59)"
  "dadd (Finite 1 0) (Finite 5764607523034236 (- 59)) = Finite 4548635623644201 (- 52)"
  "dmul (Finite 1 (- 600)) (Finite 1 (- 600)) = Finite 0 0"
  "dadd (Finite 9007199254740991 971) (Finite 9007199254740991 971) = Plus_infinity"
  "dadd (Finite 9007199254740992 0) (Finite 1 0) = Finite 4503599627370496 1"
  "dmul Plus_infinity (Finite 0 0) = NaN"
  by (simp_all add: double_eval)

lemma unit_base_dist_sq: "base_dist_sq (square_infhex (Finite 1 0)) i = Finite 4503599627370496 (- 52)"
  by (simp add: base_dist_sq_def square_infhex_def double_eval)

lemma unit_least: "least_base_dist_sq (square_infhex (Finite 1 0)) = Finite 4503599627370496 (- 52)"
  by (simp add: least_base_dist_sq_def unit_base_dist_sq std_min_def)

lemma half_conservative:
  "conservative_dist_sq (square_infhex (Finite 1 0)) half_point = Finite 4548635623644201 (- 54)"
  by (simp add: conservative_dist_sq_def square_infhex_def half_point_def double_eval)

lemma outer_conservative:
  "conservative_dist_sq (square_infhex (Finite 1 0)) outer_point = Finite 5401504803077489 (- 49)"
  by (simp add: conservative_dist_sq_def square_infhex_def outer_point_def double_eval)

lemma wide_base_dist_sq: "base_dist_sq (square_infhex (Finite 33 (- 5))) i = Finite 4789472650592256 (- 52)"
  by (simp add: base_dist_sq_def square_infhex_def double_eval)

lemma wide_least: "least_base_dist_sq (square_infhex (Finite 33 (- 5))) = Finite 4789472650592256 (- 52)"
  by (simp add: least_base_dist_sq_def wide_base_dist_sq std_min_def)

lemma near_conservative:
  "conservative_dist_sq (square_infhex (Finite 33 (- 5))) near_point = Finite 4789472650592256 (- 52)"
  by (simp add: conservative_dist_sq_def square_infhex_def near_point_def double_eval)

lemma on_reference_outer: "fei_on_reference_element identity_fei outer_point (Finite 1 (- 10))"
  by (simp add: identity_fei_def outer_point_def double_eval)

lemma on_reference_near: "fei_on_reference_element identity_fei near_point (Finite 1 (- 10))"
  by (simp add: identity_fei_def near_point_def double_eval)

text \<open>
  An instance: the element with its base nodes at distance 1 from the origin and the
  tolerance \<open>2^-10\<close>. The point at distance 1/2 is rejected without a call: its computed
  quantity, 1.01 / 4, is finite and below 1. The point (1/2, 1/2, 3) goes through the
  inverse map, and the stub accepts it.
\<close>

theorem contains_point_envelope_witness:
  "dless (conservative_dist_sq (square_infhex (Finite 1 0)) half_point)
         (least_base_dist_sq (square_infhex (Finite 1 0)))
   \<and> contains_point identity_fei (square_infhex (Finite 1 0)) half_point (Finite 1 (- 10)) = (False, [])
   \<and> \<not> dless (conservative_dist_sq (square_infhex (Finite 1 0)) outer_point)
           (least_base_dist_sq (square_infhex (Finite 1 0)))
   \<and> contains_point identity_fei (square_infhex (Finite 1 0)) outer_point (Finite 1 (- 10))
       = (True, [Inverse_map_call outer_point (Finite 1 (- 10)) False])
   \<and> is_finite (conservative_dist_sq (square_infhex (Finite 1 0)) half_point)
   \<and> is_finite (base_dist_sq (square_infhex (Finite 1 0)) 0)
   \<and> is_finite (base_dist_sq (square_infhex (Finite 1 0)) 1)
   \<and> is_finite (base_dist_sq (square_infhex (Finite 1 0)) 2)
   \<and> is_finite (base_dist_sq (square_infhex (Finite 1 0)) 3)
   \<and> value_of (conservative_dist_sq (square_infhex (Finite 1 0)) half_point)
       < Min ((\<lambda>i. value_of (base_dist_sq (square_infhex (Finite 1 0)) i)) ` {0, 1, 2, 3})"
proof -
  have i: "fei_inverse_map identity_fei e p tol s = p" for e p tol s
    by (simp add: identity_fei_def)
  show ?thesis
    using contains_point_envelope [of "square_infhex (Finite 1 0)" half_point identity_fei "Finite 1 (- 10)"]
      contains_point_envelope [of "square_infhex (Finite 1 0)" outer_point identity_fei "Finite 1 (- 10)"]
      on_reference_outer
    by (simp add: unit_base_dist_sq unit_least half_conservative outer_conservative i)
qed

text \<open>
  Claim C9 as stated, with the exact product and the exact squared distances, fails where
  rounding makes the two computed quantities equal. The base nodes are at distance 33/32
  from the origin, and the point lies on the x axis at \<open>4621288154019789 * 2^-52\<close>. 1.01
  times its squared distance from the origin is less than \<open>(33/32)^2\<close>, the squared
  distance of every base node, with 1.01 taken as 101/100 and also with 1.01 taken as
  the value of the literal. In double arithmetic the square of the coordinate rounds to
  \<open>4742052129299263 * 2^-52\<close> and its product with the literal rounds to
  \<open>4789472650592256 * 2^-52\<close>, which is \<open>(33/32)^2\<close>: the comparison is false, the inverse
  map is called, and here the result is true.
\<close>

theorem envelope_rounding_counterexample:
  "101 / 100 * dist_sq (exact_point near_point) (exact_point (origin (square_infhex (Finite 33 (- 5)))))
     < Min ((\<lambda>i. dist_sq (exact_point (point (square_infhex (Finite 33 (- 5))) i))
                     (exact_point (origin (square_infhex (Finite 33 (- 5)))))) ` {0, 1, 2, 3})
   \<and> value_of literal_1_01
       * dist_sq (exact_point near_point) (exact_point (origin (square_infhex (Finite 33 (- 5)))))
     < Min ((\<lambda>i. dist_sq (exact_point (point (square_infhex (Finite 33 (- 5))) i))
                     (exact_point (origin (square_infhex (Finite 33 (- 5)))))) ` {0, 1, 2, 3})
   \<and> contains_point identity_fei (square_infhex (Finite 33 (- 5))) near_point (Finite 1 (- 10))
       = (True, [Inverse_map_call near_point (Finite 1 (- 10)) False])"
proof -
  have 1: "101 / 100 * dist_sq (exact_point near_point) (exact_point (origin (square_infhex (Finite 33 (- 5)))))
     < Min ((\<lambda>i. dist_sq (exact_point (point (square_infhex (Finite 33 (- 5))) i))
                     (exact_point (origin (square_infhex (Finite 33 (- 5)))))) ` {0, 1, 2, 3})"
    by (simp add: dist_sq_def exact_point_def near_point_def square_infhex_def dpt_def
          power_int_minus power2_eq_square)
  have 2: "value_of literal_1_01
       * dist_sq (exact_point near_point) (exact_point (origin (square_infhex (Finite 33 (- 5)))))
     < Min ((\<lambda>i. dist_sq (exact_point (point (square_infhex (Finite 33 (- 5))) i))
                     (exact_point (origin (square_infhex (Finite 33 (- 5)))))) ` {0, 1, 2, 3})"
    by (simp add: dist_sq_def exact_point_def near_point_def square_infhex_def dpt_def literal_1_01_def
          power_int_minus power2_eq_square)
  have 3: "contains_point identity_fei (square_infhex (Finite 33 (- 5))) near_point (Finite 1 (- 10))
       = (True, [Inverse_map_call near_point (Finite 1 (- 10)) False])"
    using on_reference_near
    by (simp add: contains_point_branches wide_least near_conservative identity_fei_def)
  from 1 2 3 show ?thesis by simp
qed

subsection \<open>The embedding matrix\<close>

lemma all_rows_ok:
  "list_all (\<lambda>child. length child = 8 \<and> list_all row_ok child) embedding_matrix"
  by (simp add: embedding_matrix_def row_ok_def partial_sums_def upt_rec)

lemma row_ok_at: "c < 4 \<Longrightarrow> i < 8 \<Longrightarrow> row_ok (embedding_matrix ! c ! i)"
proof -
  assume c: "c < 4" and i: "i < 8"
  have l: "length embedding_matrix = 4" by (simp add: embedding_matrix_def)
  from all_rows_ok c l
  have "length (embedding_matrix ! c) = 8 \<and> list_all row_ok (embedding_matrix ! c)"
    by (simp add: list_all_length)
  with i show ?thesis by (simp add: list_all_length)
qed

lemma combine_shift:
  "length cs = length xs \<Longrightarrow>
   combine cs (map (\<lambda>x. x + t) xs) = combine cs xs + sum_list cs * t"
  unfolding combine_def
  by (induction cs xs rule: list_induct2) (simp_all add: algebra_simps)

lemma quarters_representable: "k \<le> 4 \<Longrightarrow> float_representable (real k / 4)"
  unfolding float_representable_def
  by (rule exI [of _ "int k"], rule exI [of _ "-2"]) (simp add: power_int_minus)

lemma in_quarters: "x \<in> {0, 1/4, 1/2, 3/4, 1::real} \<Longrightarrow> float_representable x"
proof -
  assume "x \<in> {0, 1/4, 1/2, 3/4, 1::real}"
  then consider "x = real 0 / 4" | "x = real 1 / 4" | "x = real 2 / 4"
    | "x = real 3 / 4" | "x = real 4 / 4"
    by (elim insertE emptyE) simp_all
  then show ?thesis
    by cases (simp_all only: quarters_representable)
qed

text \<open>
  Claim C10. For each of the four children \<open>c\<close> and each of the eight child nodes \<open>i\<close>, row
  \<open>i\<close> of the embedding matrix of child \<open>c\<close> has eight coefficients, each of them 0, 0.25,
  0.5 or 1 and a value of the \<open>float\<close> format, as is every sum reached while adding them
  up; their sum is 1; so the child node is an affine combination of the parent's nodes:
  moving all parent nodes by \<open>t\<close> moves it by \<open>t\<close>.
\<close>

theorem embedding_rows_sum_to_one:
  assumes "c < 4" and "i < 8"
  shows "length (embedding_matrix ! c ! i) = 8
    \<and> set (embedding_matrix ! c ! i) \<subseteq> {0, 1/4, 1/2, 1}
    \<and> (\<forall>x \<in> set (embedding_matrix ! c ! i). float_representable x)
    \<and> (\<forall>n. float_representable (sum_list (take n (embedding_matrix ! c ! i))))
    \<and> sum_list (embedding_matrix ! c ! i) = 1
    \<and> (length xs = 8 \<longrightarrow>
           combine (embedding_matrix ! c ! i) (map (\<lambda>x. x + t) xs)
           = combine (embedding_matrix ! c ! i) xs + t)"
proof -
  let ?r = "embedding_matrix ! c ! i"
  from assms have ok: "row_ok ?r" by (rule row_ok_at)
  have len: "length ?r = 8" using ok by (simp add: row_ok_def)
  have s: "set ?r \<subseteq> {0, 1/4, 1/2, 1}" using ok by (simp add: row_ok_def)
  have f: "\<forall>x \<in> set ?r. float_representable x"
    using s in_quarters by blast
  have p: "\<forall>n. float_representable (sum_list (take n ?r))"
  proof
    fix n
    have "sum_list (take n ?r) = sum_list (take (min n (length ?r)) ?r)"
      by (simp add: min_def)
    also have "\<dots> \<in> set (partial_sums ?r)"
    proof -
      have "min n (length ?r) \<in> set [0..<Suc (length ?r)]" by auto
      then show ?thesis unfolding partial_sums_def set_map by (rule imageI)
    qed
    finally show "float_representable (sum_list (take n ?r))"
      using ok in_quarters unfolding row_ok_def by blast
  qed
  have one: "sum_list ?r = 1" using ok by (simp add: row_ok_def)
  have a: "length xs = 8 \<longrightarrow> combine ?r (map (\<lambda>x. x + t) xs) = combine ?r xs + t"
    using ok combine_shift [of ?r xs t] by (simp add: row_ok_def)
  from len s f p one a show ?thesis by blast
qed

text \<open>
  An instance: child 0, child node 2 (the centre of the parent's base), the parent's
  nodes at x = -1, 1, 1, -1, -2, 2, 2, -2, moved by 5.
\<close>

theorem embedding_rows_sum_to_one_witness:
  "(0::nat) < 4 \<and> (2::nat) < 8
   \<and> embedding_matrix ! 0 ! 2 = [1/4, 1/4, 1/4, 1/4, 0, 0, 0, 0]
   \<and> sum_list (embedding_matrix ! 0 ! 2) = 1
   \<and> float_representable (sum_list (take 3 (embedding_matrix ! 0 ! 2)))
   \<and> length [-1, 1, 1, -1, -2, 2, 2, -2 :: real] = 8
   \<and> combine (embedding_matrix ! 0 ! 2) (map (\<lambda>x. x + 5) [-1, 1, 1, -1, -2, 2, 2, -2]) = 5"
proof -
  have t: "(0::nat) < 4" "(2::nat) < 8" by simp_all
  note r = embedding_rows_sum_to_one [OF t, of "[-1, 1, 1, -1, -2, 2, 2, -2]" 5]
  from r have p: "float_representable (sum_list (take 3 (embedding_matrix ! 0 ! 2)))"
    by blast
  from r have s: "sum_list (embedding_matrix ! 0 ! 2) = 1"
    by blast
  from r have c: "combine (embedding_matrix ! 0 ! 2) (map (\<lambda>x. x + 5) [-1, 1, 1, -1, -2, 2, 2, -2])
      = combine (embedding_matrix ! 0 ! 2) [-1, 1, 1, -1, -2, 2, 2, -2] + 5"
    by simp
  have m: "embedding_matrix ! 0 ! 2 = [1/4, 1/4, 1/4, 1/4, 0, 0, 0, 0]"
    by (simp add: embedding_matrix_def)
  have z: "combine (embedding_matrix ! 0 ! 2) [-1, 1, 1, -1, -2, 2, 2, -2] = 0"
    unfolding m by (simp add: combine_def)
  from p s c m z show ?thesis by simp
qed

section \<open>Theorems: main\<close>

subsection \<open>Failures before the sweeps\<close>

text \<open>
  Claim C8. If the program is started with fewer than six arguments (the program name
  among them), it prints the usage synopsis on standard error and stops with the usage
  error; this is all it does: no file has been read.
\<close>

theorem usage_error_before_reading:
  "argv \<noteq> [] \<Longrightarrow> length argv < 6 \<Longrightarrow>
   main ext argv = Inl (Usage_error, [Cerr (usage (hd argv))])"
  by (cases argv) (simp_all add: main_def)

theorem usage_error_before_reading_witness:
  "[''meshdiff'', ''0'', ''m0.mesh''] \<noteq> [] \<and> length [''meshdiff'', ''0'', ''m0.mesh''] < 6 \<and>
   main chain_ext [''meshdiff'', ''0'', ''m0.mesh''] =
     Inl (Usage_error, [Cerr ''Usage: meshdiff ivar m0.mesh m1.mesh s0.soln s1.soln''])"
  using usage_error_before_reading [of "[''meshdiff'', ''0'', ''m0.mesh'']" chain_ext]
  by (simp add: usage_def)

text \<open>
  Claim C6. If the variable name lists of the two solution files differ, the run stops
  with the failed assertion right after the four files are read: its events are the
  reading events only, so the octree has not been built, nothing has been interpolated or
  accumulated, no error is printed and no plot is written.
\<close>

theorem name_mismatch_is_fatal:
  "6 \<le> length argv \<Longrightarrow>
   snd (read_mgf_soln ext (mesh_read ext (argv ! 3)) (argv ! 5)) \<noteq>
   snd (read_mgf_soln ext (mesh_read ext (argv ! 2)) (argv ! 4)) \<Longrightarrow>
   main ext argv =
     Inl (Assertion_failed ''fine_var_names == coarse_var_names'', reading_events ext argv)"
proof -
  assume len: "6 \<le> length argv"
    and ne: "snd (read_mgf_soln ext (mesh_read ext (argv ! 3)) (argv ! 5)) \<noteq>
             snd (read_mgf_soln ext (mesh_read ext (argv ! 2)) (argv ! 4))"
  obtain cs cn where c: "read_mgf_soln ext (mesh_read ext (argv ! 2)) (argv ! 4) = (cs, cn)"
    by fastforce
  obtain fs fn where f: "read_mgf_soln ext (mesh_read ext (argv ! 3)) (argv ! 5) = (fs, fn)"
    by fastforce
  from ne c f have "fn \<noteq> cn" by simp
  with len show ?thesis
    by (simp add: main_def c f)
qed

theorem name_mismatch_is_fatal_witness:
  "main chain_ext [''meshdiff'', ''0'', ''m0.mesh'', ''m1.mesh'', ''s0.soln'', ''t.soln''] =
     Inl (Assertion_failed ''fine_var_names == coarse_var_names'',
       [Cout ''Reading Mesh m0.mesh'', Read_mesh ''m0.mesh'', Cout ''Mesh Information'',
        Cout ''Reading Mesh m1.mesh'', Read_mesh ''m1.mesh'', Cout ''Mesh Information'',
        Cout ''Reading Soln s0.soln'', Read_soln ''s0.soln'',
        Cout ''Reading Soln t.soln'', Read_soln ''t.soln''])"
  using name_mismatch_is_fatal
    [of "[''meshdiff'', ''0'', ''m0.mesh'', ''m1.mesh'', ''s0.soln'', ''t.soln'']" chain_ext]
  by (simp add: reading_events_def chain_ext_def)

subsection \<open>The interpolation loops and the locator\<close>

lemma field_index_exact:
  "0 \<le> v \<Longrightarrow> int gn * int nv + v < 4294967296 \<Longrightarrow> field_index gn nv v = gn * nv + nat v"
  by (simp add: field_index_def unsigned_int_def nat_add_distrib nat_mult_distrib)

lemma fine_soln_loop_Inr:
  "fine_soln_loop inp e phi gp js a = Inr r \<Longrightarrow>
   r = a + (\<Sum>i\<leftarrow>js. fine_solution inp ! field_index (elem_nodes e ! i) (length (fine_var_names inp)) (ivar inp) * (phi ! i ! gp))"
proof (induction js arbitrary: a)
  case Nil
  then show ?case by simp
next
  case (Cons j js)
  let ?t = "fine_solution inp ! field_index (elem_nodes e ! j) (length (fine_var_names inp)) (ivar inp) * (phi ! j ! gp)"
  from Cons.prems have "fine_soln_loop inp e phi gp js (a + ?t) = Inr r"
    by (simp add: Let_def split: if_splits)
  from Cons.IH [OF this] show ?case by simp
qed

lemma coarse_soln_loop_Inr:
  "coarse_soln_loop ext soln nv v fe ce mp js a = Inr r \<Longrightarrow>
   r = a + (\<Sum>i\<leftarrow>js. soln ! field_index (elem_nodes ce ! i) nv v * shape ext fe ce i mp)"
proof (induction js arbitrary: a)
  case Nil
  then show ?case by simp
next
  case (Cons j js)
  let ?t = "soln ! field_index (elem_nodes ce ! j) nv v * shape ext fe ce j mp"
  from Cons.prems have "coarse_soln_loop ext soln nv v fe ce mp js (a + ?t) = Inr r"
    by (simp add: Let_def split: if_splits)
  from Cons.IH [OF this] show ?case by simp
qed

lemma coarse_soln_loop_interpolated:
  "coarse_soln_loop ext soln nv v fe ce (inverse_map ext fe ce p) [0..<n_shape_functions ext fe] 0 = Inr r \<Longrightarrow>
   r = interpolated ext soln nv v fe ce p"
  by (drule coarse_soln_loop_Inr) (simp add: interpolated_def interv_sum_list_conv_sum_set_nat atLeast0LessThan)

lemma fine_soln_loop_interpolated:
  "fine_soln_loop inp e (get_phi ext e) gp [0..<length (elem_nodes e)] 0 = Inr r \<Longrightarrow>
   r = fine_interpolated ext inp e gp"
  by (drule fine_soln_loop_Inr) (simp add: fine_interpolated_def interv_sum_list_conv_sum_set_nat atLeast0LessThan)

lemma coarse_soln_loop_bound:
  "coarse_soln_loop ext soln nv v fe ce mp js a = Inr r \<Longrightarrow> j \<in> set js \<Longrightarrow> j < length (elem_nodes ce)"
  by (induction js arbitrary: a) (auto simp: Let_def split: if_splits)

lemma coarse_soln_loop_fits:
  "coarse_soln_loop ext soln nv v fe ce mp [0..<n_shape_functions ext fe] a = Inr r \<Longrightarrow> fits ext (ce, fe)"
proof -
  assume a: "coarse_soln_loop ext soln nv v fe ce mp [0..<n_shape_functions ext fe] a = Inr r"
  show ?thesis
  proof (cases "n_shape_functions ext fe")
    case 0
    then show ?thesis by (simp add: fits_def)
  next
    case (Suc m)
    then have "m \<in> set [0..<n_shape_functions ext fe]" by simp
    from coarse_soln_loop_bound [OF a this] Suc show ?thesis by (simp add: fits_def)
  qed
qed

lemma locate_Inr:
  "locate ext mc s p = Inr s' \<Longrightarrow>
   (coarse_element s', fe_coarse s') = locator_query ext mc (coarse_element s, fe_coarse s) p
   \<and> error s' = error s \<and> diff_solution s' = diff_solution s \<and> already_done s' = already_done s
   \<and> events s' = events s @
        (if elem_contains_point ext (coarse_element s) p then []
         else [Find_element p, Fe_coarse_reinit (coarse_element s')])"
  by (auto simp: locate_def locator_query_def split: if_splits option.splits)

lemma locate_found:
  "locate ext mc s p = Inr s' \<Longrightarrow> found ext mc p (coarse_element s', fe_coarse s')"
  by (auto simp: locate_def found_def split: if_splits option.splits)

lemma length_located [simp]: "length (located ext mc l ps) = length ps"
  by (induction ps arbitrary: l) simp_all

lemma remembered_simps [simp]:
  "remembered ext mc l [] = l"
  "remembered ext mc l (p # ps) = remembered ext mc (locator_query ext mc l p) ps"
  by (simp_all add: remembered_def)

lemma remembered_append: "remembered ext mc l (ps @ qs) = remembered ext mc (remembered ext mc l ps) qs"
  by (simp add: remembered_def)

lemma located_append:
  "located ext mc l (ps @ qs) = located ext mc l ps @ located ext mc (remembered ext mc l ps) qs"
  by (induction ps arbitrary: l) simp_all

lemma sweep_events_append:
  "sweep_events ext mc l (ps @ qs) = sweep_events ext mc l ps @ sweep_events ext mc (remembered ext mc l ps) qs"
  by (induction ps arbitrary: l) simp_all

lemma located_same:
  "fst l = snd l \<Longrightarrow> l' \<in> set (located ext mc l ps) \<Longrightarrow> fst l' = snd l'"
proof (induction ps arbitrary: l)
  case Nil
  then show ?case by simp
next
  case (Cons p ps)
  have q: "fst (locator_query ext mc l p) = snd (locator_query ext mc l p)"
    using Cons.prems(1) by (simp add: locator_query_def split: option.splits)
  from Cons.prems(2) Cons.IH [OF q] q show ?case by auto
qed

lemma fine_interpolated_exact:
  assumes "0 \<le> ivar inp" and "in_unsigned_range (length (fine_var_names inp)) (ivar inp) e"
  shows "fine_interpolated ext inp e gp
         = fine_value ext (fine_solution inp) (length (fine_var_names inp)) (nat (ivar inp)) e gp"
  unfolding fine_interpolated_def fine_value_def
proof (rule sum.cong [OF refl])
  fix i assume "i \<in> {..<length (elem_nodes e)}"
  then have "elem_nodes e ! i \<in> set (elem_nodes e)" by simp
  with assms(2) have "int (elem_nodes e ! i) * int (length (fine_var_names inp)) + ivar inp < 4294967296"
    by (simp add: in_unsigned_range_def list_all_iff)
  from field_index_exact [OF assms(1) this]
  show "fine_solution inp ! field_index (elem_nodes e ! i) (length (fine_var_names inp)) (ivar inp) * (get_phi ext e ! i ! gp)
      = fine_solution inp ! (elem_nodes e ! i * length (fine_var_names inp) + nat (ivar inp)) * (get_phi ext e ! i ! gp)"
    by simp
qed

lemma interpolated_exact:
  assumes "0 \<le> v" and "in_unsigned_range nv v ce" and "fits ext (ce, ce)"
  shows "interpolated ext soln nv v ce ce p = coarse_value ext soln nv (nat v) ce p"
  unfolding interpolated_def coarse_value_def
proof (rule sum.cong [OF refl])
  fix i assume "i \<in> {..<n_shape_functions ext ce}"
  with assms(3) have "elem_nodes ce ! i \<in> set (elem_nodes ce)" by (simp add: fits_def)
  with assms(2) have "int (elem_nodes ce ! i) * int nv + v < 4294967296"
    by (simp add: in_unsigned_range_def list_all_iff)
  from field_index_exact [OF assms(1) this]
  show "soln ! field_index (elem_nodes ce ! i) nv v * shape ext ce ce i (inverse_map ext ce ce p)
      = soln ! (elem_nodes ce ! i * nv + nat v) * shape ext ce ce i (inverse_map ext ce ce p)"
    by simp
qed

subsection \<open>The error sweep\<close>

lemma gp_body_Inr:
  assumes "gp_body ext inp e s gp = Inr s'"
  defines "l \<equiv> (coarse_element s, fe_coarse s)"
  defines "l' \<equiv> locator_query ext (mesh_coarse inp) l (q_point ext (e, gp))"
  shows "(coarse_element s', fe_coarse s') = l'"
    and "error s' = error s + error_term ext inp (e, gp) l'"
    and "diff_solution s' = diff_solution s"
    and "already_done s' = already_done s"
    and "events s' = events s @ point_events ext l l' (q_point ext (e, gp))"
    and "gp < length (get_xyz ext e)"
    and "found ext (mesh_coarse inp) (q_point ext (e, gp)) l'"
    and "fits ext l'"
proof -
  let ?q = "get_xyz ext e ! gp"
  from assms(1) have n: "n_shape_functions ext e = length (elem_nodes e)"
    by (auto simp: gp_body_def split: if_splits)
  from assms(1) n obtain fs where
    fs: "fine_soln_loop inp e (get_phi ext e) gp [0..<length (elem_nodes e)] 0 = Inr fs"
    by (auto simp: gp_body_def split: if_splits sum.splits)
  from assms(1) n fs show gp: "gp < length (get_xyz ext e)"
    by (auto simp: gp_body_def split: if_splits)
  from assms(1) n fs gp obtain s1 where s1: "locate ext (mesh_coarse inp) s ?q = Inr s1"
    by (auto simp: gp_body_def Let_def split: sum.splits)
  let ?fe = "fe_coarse s1" and ?ce = "coarse_element s1"
  from assms(1) n fs gp s1 obtain cs where
    cs: "coarse_soln_loop ext (coarse_solution inp) (length (coarse_var_names inp)) (ivar inp)
           ?fe ?ce (inverse_map ext ?fe ?ce ?q) [0..<n_shape_functions ext ?fe] 0 = Inr cs"
    by (auto simp: gp_body_def Let_def split: sum.splits)
  from assms(1) n fs gp s1 cs have s': "s' = s1\<lparr>events := events s1 @ [Inverse_map ?fe ?ce ?q],
      error := error s1 + get_JxW ext e ! gp * (cs - fs) * (cs - fs)\<rparr>"
    by (auto simp: gp_body_def Let_def split: if_splits)
  note L = locate_Inr [OF s1]
  from L show l': "(coarse_element s', fe_coarse s') = l'"
    by (simp add: s' l'_def l_def q_point_def)
  have cse: "cs = interpolated ext (coarse_solution inp) (length (coarse_var_names inp)) (ivar inp) ?fe ?ce ?q"
    using cs by (rule coarse_soln_loop_interpolated)
  have fse: "fs = fine_interpolated ext inp e gp"
    using fs by (rule fine_soln_loop_interpolated)
  from l' have fl: "fst l' = ?ce" "snd l' = ?fe" by (auto simp: s')
  show "error s' = error s + error_term ext inp (e, gp) l'"
    using L by (simp add: s' error_term_def fl cse fse q_point_def power2_eq_square)
  show "diff_solution s' = diff_solution s" using L by (simp add: s')
  show "already_done s' = already_done s" using L by (simp add: s')
  show "events s' = events s @ point_events ext l l' (q_point ext (e, gp))"
    using L by (simp add: s' point_events_def fl l_def q_point_def)
  show "found ext (mesh_coarse inp) (q_point ext (e, gp)) l'"
    using locate_found [OF s1] l' by (simp add: s' q_point_def)
  show "fits ext l'"
    using coarse_soln_loop_fits [OF cs] l' by (simp add: s')
qed

lemma gp_loop_Inr:
  assumes "gp_loop ext inp e s gps = Inr s'"
  defines "l \<equiv> (coarse_element s, fe_coarse s)"
  defines "qs \<equiv> map (Pair e) gps"
  defines "ps \<equiv> map (q_point ext) qs"
  shows "(coarse_element s', fe_coarse s') = remembered ext (mesh_coarse inp) l ps
    \<and> error s' = error s + sum_list (map2 (error_term ext inp) qs (located ext (mesh_coarse inp) l ps))
    \<and> diff_solution s' = diff_solution s
    \<and> already_done s' = already_done s
    \<and> events s' = events s @ sweep_events ext (mesh_coarse inp) l ps
    \<and> list_all2 (found ext (mesh_coarse inp)) ps (located ext (mesh_coarse inp) l ps)
    \<and> list_all (fits ext) (located ext (mesh_coarse inp) l ps)
    \<and> (\<forall>gp \<in> set gps. gp < length (get_xyz ext e))"
  using assms(1) unfolding l_def qs_def ps_def
proof (induction gps arbitrary: s)
  case Nil
  then show ?case by simp
next
  case (Cons gp gps)
  from Cons.prems obtain s1 where b: "gp_body ext inp e s gp = Inr s1"
    and r: "gp_loop ext inp e s1 gps = Inr s'"
    by (auto split: sum.splits)
  note B = gp_body_Inr [OF b]
  note R = Cons.IH [OF r]
  from B(1) have l1: "(coarse_element s1, fe_coarse s1)
      = locator_query ext (mesh_coarse inp) (coarse_element s, fe_coarse s) (q_point ext (e, gp))"
    by simp
  show ?case
    using R B(2-8) by (simp add: l1 add.assoc)
qed

lemma elem_loop_Inr:
  assumes "elem_loop ext inp s es = Inr s'"
  defines "l \<equiv> (coarse_element s, fe_coarse s)"
  defines "qs \<equiv> quadrature ext es"
  defines "ps \<equiv> map (q_point ext) qs"
  shows "(coarse_element s', fe_coarse s') = remembered ext (mesh_coarse inp) l ps
    \<and> error s' = error s + sum_list (map2 (error_term ext inp) qs (located ext (mesh_coarse inp) l ps))
    \<and> diff_solution s' = diff_solution s
    \<and> already_done s' = already_done s
    \<and> events s' = events s @ sweep_events ext (mesh_coarse inp) l ps
    \<and> list_all2 (found ext (mesh_coarse inp)) ps (located ext (mesh_coarse inp) l ps)
    \<and> list_all (fits ext) (located ext (mesh_coarse inp) l ps)"
  using assms(1) unfolding l_def qs_def ps_def
proof (induction es arbitrary: s)
  case Nil
  then show ?case by (simp add: quadrature_def)
next
  case (Cons e es)
  from Cons.prems obtain s1 where g: "gp_loop ext inp e s [0..<length (get_xyz ext e)] = Inr s1"
    and r: "elem_loop ext inp s1 es = Inr s'"
    by (auto split: sum.splits)
  note G = gp_loop_Inr [OF g]
  note R = Cons.IH [OF r]
  have q: "quadrature ext (e # es) = map (Pair e) [0..<length (get_xyz ext e)] @ quadrature ext es"
    by (simp add: quadrature_def)
  from G have l1: "(coarse_element s1, fe_coarse s1) = remembered ext (mesh_coarse inp) (coarse_element s, fe_coarse s)
       (map (q_point ext) (map (Pair e) [0..<length (get_xyz ext e)]))"
    by blast
  show ?case
    unfolding q map_append located_append remembered_append sweep_events_append
    using R G by (simp add: l1 [symmetric] add.assoc list_all2_appendI)
qed

lemma error_sweep_Inr:
  assumes "error_sweep ext inp diff evs = Inr s"
  defines "l \<equiv> (hd (mesh_elems (mesh_coarse inp)), hd (mesh_elems (mesh_coarse inp)))"
  defines "qs \<equiv> quadrature ext (mesh_elems (mesh_fine inp))"
  defines "ps \<equiv> map (q_point ext) qs"
  shows "mesh_elems (mesh_coarse inp) \<noteq> []"
    and "(coarse_element s, fe_coarse s) = remembered ext (mesh_coarse inp) l ps"
    and "error s = sqrt (sum_list (map2 (error_term ext inp) qs (located ext (mesh_coarse inp) l ps)))"
    and "diff_solution s = diff"
    and "events s = evs @ [Fe_coarse_reinit (fst l)] @ sweep_events ext (mesh_coarse inp) l ps
           @ [Cout_real ''Computed error='' (error s)]"
    and "list_all2 (found ext (mesh_coarse inp)) ps (located ext (mesh_coarse inp) l ps)"
    and "list_all (fits ext) (located ext (mesh_coarse inp) l ps)"
proof -
  from assms(1) show ne: "mesh_elems (mesh_coarse inp) \<noteq> []"
    by (auto simp: error_sweep_def split: list.splits)
  then obtain e0 rest where e0: "mesh_elems (mesh_coarse inp) = e0 # rest"
    by (cases "mesh_elems (mesh_coarse inp)") auto
  let ?s0 = "\<lparr>error = 0, coarse_element = e0, fe_coarse = e0, diff_solution = diff,
              already_done = [], events = evs @ [Fe_coarse_reinit e0]\<rparr>"
  from assms(1) e0 obtain s1 where
    s1: "elem_loop ext inp ?s0 (mesh_elems (mesh_fine inp)) = Inr s1"
    and s: "s = s1\<lparr>error := sqrt (error s1),
                   events := events s1 @ [Cout_real ''Computed error='' (sqrt (error s1))]\<rparr>"
    by (auto simp: error_sweep_def split: sum.splits)
  note E = elem_loop_Inr [OF s1]
  have l: "l = (e0, e0)" by (simp add: l_def e0)
  from E show "(coarse_element s, fe_coarse s) = remembered ext (mesh_coarse inp) l ps"
    by (simp add: s l ps_def qs_def)
  from E show "error s = sqrt (sum_list (map2 (error_term ext inp) qs (located ext (mesh_coarse inp) l ps)))"
    by (simp add: s l ps_def qs_def)
  from E show "diff_solution s = diff" by (simp add: s)
  from E show "events s = evs @ [Fe_coarse_reinit (fst l)] @ sweep_events ext (mesh_coarse inp) l ps
           @ [Cout_real ''Computed error='' (error s)]"
    by (simp add: s l ps_def qs_def)
  from E show "list_all2 (found ext (mesh_coarse inp)) ps (located ext (mesh_coarse inp) l ps)"
    by (simp add: l ps_def qs_def)
  from E show "list_all (fits ext) (located ext (mesh_coarse inp) l ps)"
    by (simp add: l ps_def qs_def)
qed

lemma quadrature_fst: "q \<in> set (quadrature ext es) \<Longrightarrow> fst q \<in> set es"
  by (auto simp: quadrature_def)

text \<open>
  Claim C3. When the error sweep reaches its end, the error it reports (the last thing it
  prints) is the square root of the sum, over every fine element and every quadrature
  point of it, of \<open>JxW[gp] * (coarse_soln - fine_soln)^2\<close>, with \<open>fine_soln\<close> the sum over
  the fine element's local nodes of \<open>fine_solution[gn * nv + ivar] * phi[i][gp]\<close> and
  \<open>coarse_soln\<close> the interpolation of the coarse solution in the coarse element located
  for the point, through that element's inverse map and shape functions; the located
  element contains the point. The hypotheses: \<open>ivar\<close> is not negative and the indices
  stay in the range of \<open>unsigned int\<close>, and \<open>find_element\<close> returns only elements that
  contain the queried point (its contract in section 4.1 of the spec).
\<close>

theorem error_metric:
  assumes run: "error_sweep ext inp diff evs = Inr s"
    and iv: "0 \<le> ivar inp"
    and fine_range: "\<forall>e \<in> set (mesh_elems (mesh_fine inp)).
           in_unsigned_range (length (fine_var_names inp)) (ivar inp) e"
    and coarse_range: "\<forall>ce \<in> set (error_sweep_elements ext inp).
           in_unsigned_range (length (coarse_var_names inp)) (ivar inp) ce"
    and sound: "\<forall>p \<in> set (quadrature_points ext inp). \<forall>e.
           find_element ext (mesh_coarse inp) p = Some e \<longrightarrow> elem_contains_point ext e p"
  shows "error s = sqrt (\<Sum>(q, ce) \<leftarrow> zip (quadrature ext (mesh_elems (mesh_fine inp)))
                                     (error_sweep_elements ext inp). l2_term ext inp q ce)
    \<and> last (events s) = Cout_real ''Computed error='' (error s)
    \<and> list_all2 (\<lambda>q ce. elem_contains_point ext ce (q_point ext q))
         (quadrature ext (mesh_elems (mesh_fine inp))) (error_sweep_elements ext inp)"
proof -
  let ?qs = "quadrature ext (mesh_elems (mesh_fine inp))"
  let ?ls = "error_sweep_located ext inp"
  note E = error_sweep_Inr [OF run, folded quadrature_points_def, folded error_sweep_located_def]
  have same: "fst l = snd l" if "l \<in> set ?ls" for l
    using that unfolding error_sweep_located_def by (rule located_same [rotated]) simp
  have fit: "fits ext l" if "l \<in> set ?ls" for l
    using E(7) that by (simp add: list_all_iff)
  have tm: "error_term ext inp q l = l2_term ext inp q (fst l)" if "(q, l) \<in> set (zip ?qs ?ls)" for q l
  proof -
    from that have q: "q \<in> set ?qs" and l: "l \<in> set ?ls"
      by (auto dest: set_zip_leftD set_zip_rightD)
    from l have c: "fst l \<in> set (error_sweep_elements ext inp)"
      by (simp add: error_sweep_elements_def)
    have ll: "l = (fst l, fst l)" using same [OF l] by (cases l) simp
    from fit [OF l] ll have f: "fits ext (fst l, fst l)" by simp
    have 1: "interpolated ext (coarse_solution inp) (length (coarse_var_names inp)) (ivar inp) (snd l) (fst l) (q_point ext q)
        = coarse_value ext (coarse_solution inp) (length (coarse_var_names inp)) (nat (ivar inp)) (fst l) (q_point ext q)"
      using interpolated_exact [OF iv _ f] coarse_range c same [OF l] by simp
    have 2: "fine_interpolated ext inp (fst q) (snd q)
        = fine_value ext (fine_solution inp) (length (fine_var_names inp)) (nat (ivar inp)) (fst q) (snd q)"
      using fine_interpolated_exact [OF iv] fine_range quadrature_fst [OF q] by simp
    show ?thesis by (simp add: error_term_def l2_term_def 1 2)
  qed
  have "map2 (error_term ext inp) ?qs ?ls = map2 (l2_term ext inp) ?qs (map fst ?ls)"
    using tm by (auto simp: zip_map2 intro!: map_cong)
  with E(3) have 1: "error s = sqrt (\<Sum>(q, ce) \<leftarrow> zip ?qs (error_sweep_elements ext inp). l2_term ext inp q ce)"
    by (simp add: error_sweep_elements_def)
  from E(5) have 2: "last (events s) = Cout_real ''Computed error='' (error s)"
    by simp
  have "list_all2 (\<lambda>p l. elem_contains_point ext (fst l) p) (quadrature_points ext inp) ?ls"
    unfolding list_all2_iff
  proof (intro conjI ballI)
    from E(6) show "length (quadrature_points ext inp) = length ?ls"
      by (simp add: list_all2_iff)
  next
    fix x assume x: "x \<in> set (zip (quadrature_points ext inp) ?ls)"
    obtain p l where pl: "x = (p, l)" by (cases x)
    from x pl have p: "p \<in> set (quadrature_points ext inp)" by (auto dest: set_zip_leftD)
    from E(6) x pl have "found ext (mesh_coarse inp) p l"
      by (auto simp: list_all2_iff)
    with sound p have "elem_contains_point ext (fst l) p"
      by (auto simp: found_def)
    then show "case x of (p, l) \<Rightarrow> elem_contains_point ext (fst l) p"
      by (simp add: pl)
  qed
  then have 3: "list_all2 (\<lambda>q ce. elem_contains_point ext ce (q_point ext q)) ?qs (error_sweep_elements ext inp)"
    by (simp add: quadrature_points_def error_sweep_elements_def list_all2_map1 list_all2_map2)
  from 1 2 3 show ?thesis by blast
qed

subsection \<open>The instance\<close>

lemmas chain_defs = chain_ext_def chain_inp_def chain_mesh_def cell_def pt_def cell_contains_def
  chain_tree_def region_contains_def

lemma bin_find_sound:
  "bin_find cp p b = Some e \<Longrightarrow> cp e p"
  "bins_find cp p bs = Some e \<Longrightarrow> cp e p"
proof (induction cp p b and cp p bs rule: bin_find_bins_find.induct)
  case (1 cp p r es)
  then show ?case by (auto simp: find_Some_iff split: if_splits)
next
  case (2 cp p r cs)
  then show ?case by (auto split: if_splits)
next
  case (3 cp p)
  then show ?case by simp
next
  case (4 cp p c cs)
  then show ?case by (auto split: option.splits)
qed

lemma chain_find_sound:
  "find_element chain_ext m p = Some e \<Longrightarrow> elem_contains_point chain_ext e p"
  by (simp add: chain_ext_def) (rule bin_find_sound)

lemma chain_error_sweep: "error_sweep chain_ext chain_inp [0, 0, 0] [] =
  Inr \<lparr>error = 1, coarse_element = cell 1, fe_coarse = cell 1, diff_solution = [0, 0, 0],
       already_done = [],
       events = [Fe_coarse_reinit (cell 0), Inverse_map (cell 0) (cell 0) (pt (1/2)),
                 Find_element (pt (3/2)), Fe_coarse_reinit (cell 1), Inverse_map (cell 1) (cell 1) (pt (3/2)),
                 Cout_real ''Computed error='' 1]\<rparr>"
  by (simp add: error_sweep_def chain_defs gp_body_def locate_def upt_rec Let_def field_index_def unsigned_int_def)

lemma chain_quadrature:
  "quadrature chain_ext (mesh_elems (mesh_fine chain_inp)) = [(cell 0, 0), (cell 1, 0)]"
  by (simp add: quadrature_def chain_defs)

lemma chain_quadrature_points:
  "quadrature_points chain_ext chain_inp = [pt (1/2), pt (3/2)]"
  by (simp add: quadrature_points_def quadrature_def q_point_def chain_defs)

lemma chain_error_sweep_elements:
  "error_sweep_elements chain_ext chain_inp = [cell 0, cell 1]"
  by (simp add: error_sweep_elements_def error_sweep_located_def chain_quadrature_points locator_query_def)
     (simp add: chain_defs)

theorem error_metric_witness:
  "error_sweep chain_ext chain_inp [0, 0, 0] [] =
     Inr \<lparr>error = 1, coarse_element = cell 1, fe_coarse = cell 1, diff_solution = [0, 0, 0],
          already_done = [],
          events = [Fe_coarse_reinit (cell 0), Inverse_map (cell 0) (cell 0) (pt (1/2)),
                    Find_element (pt (3/2)), Fe_coarse_reinit (cell 1),
                    Inverse_map (cell 1) (cell 1) (pt (3/2)), Cout_real ''Computed error='' 1]\<rparr>
   \<and> 0 \<le> ivar chain_inp
   \<and> quadrature chain_ext (mesh_elems (mesh_fine chain_inp)) = [(cell 0, 0), (cell 1, 0)]
   \<and> error_sweep_elements chain_ext chain_inp = [cell 0, cell 1]
   \<and> l2_term chain_ext chain_inp (cell 0, 0) (cell 0) = 0
   \<and> l2_term chain_ext chain_inp (cell 1, 0) (cell 1) = 1
   \<and> 1 = sqrt (l2_term chain_ext chain_inp (cell 0, 0) (cell 0) + (l2_term chain_ext chain_inp (cell 1, 0) (cell 1) + 0))
   \<and> elem_contains_point chain_ext (cell 0) (q_point chain_ext (cell 0, 0))
   \<and> elem_contains_point chain_ext (cell 1) (q_point chain_ext (cell 1, 0))"
proof -
  have h1: "0 \<le> ivar chain_inp" by (simp add: chain_inp_def)
  have h2: "\<forall>e \<in> set (mesh_elems (mesh_fine chain_inp)).
      in_unsigned_range (length (fine_var_names chain_inp)) (ivar chain_inp) e"
    by (simp add: chain_defs in_unsigned_range_def)
  have h3: "\<forall>ce \<in> set (error_sweep_elements chain_ext chain_inp).
      in_unsigned_range (length (coarse_var_names chain_inp)) (ivar chain_inp) ce"
    unfolding chain_error_sweep_elements by (simp add: chain_defs in_unsigned_range_def)
  have h4: "\<forall>p \<in> set (quadrature_points chain_ext chain_inp). \<forall>e.
      find_element chain_ext (mesh_coarse chain_inp) p = Some e \<longrightarrow> elem_contains_point chain_ext e p"
    using chain_find_sound by blast
  note T = error_metric [OF chain_error_sweep h1 h2 h3 h4]
  have t0: "l2_term chain_ext chain_inp (cell 0, 0) (cell 0) = 0"
    by (simp add: l2_term_def coarse_value_def fine_value_def q_point_def chain_defs lessThan_Suc numeral_2_eq_2)
  have t1: "l2_term chain_ext chain_inp (cell 1, 0) (cell 1) = 1"
    by (simp add: l2_term_def coarse_value_def fine_value_def q_point_def chain_defs lessThan_Suc numeral_2_eq_2)
  from T show ?thesis
    unfolding chain_quadrature chain_error_sweep_elements
    by (simp add: chain_error_sweep h1 t0 t1)
qed

subsection \<open>The nodal difference sweep\<close>

lemma apply_writes_simps [simp]:
  "apply_writes [] d = d"
  "apply_writes (w # ws) d = apply_writes ws (d[fst w := snd w])"
  by (simp_all add: apply_writes_def)

lemma apply_writes_append: "apply_writes (ws @ vs) d = apply_writes vs (apply_writes ws d)"
  by (simp add: apply_writes_def)

lemma length_apply_writes [simp]: "length (apply_writes ws d) = length d"
  by (induction ws arbitrary: d) simp_all

lemma var_loop_Inr:
  assumes "var_loop ext inp nv gn (inverse_map ext (fe_coarse s) (coarse_element s) (mesh_points (mesh_fine inp) ! gn)) s cs = Inr s'"
  shows "s' = s\<lparr>diff_solution := apply_writes (map (var_write ext inp nv gn (coarse_element s, fe_coarse s)) cs) (diff_solution s)\<rparr>
    \<and> (\<forall>c \<in> set cs. field_index gn nv (int c) < length (diff_solution s))
    \<and> (cs \<noteq> [] \<longrightarrow> fits ext (coarse_element s, fe_coarse s))"
  using assms
proof (induction cs arbitrary: s)
  case Nil
  then show ?case by simp
next
  case (Cons c cs)
  let ?p = "mesh_points (mesh_fine inp) ! gn"
  let ?mp = "inverse_map ext (fe_coarse s) (coarse_element s) ?p"
  let ?k = "field_index gn nv (int c)"
  from Cons.prems obtain x where
    x: "coarse_soln_loop ext (coarse_solution inp) nv (int c) (fe_coarse s) (coarse_element s) ?mp
          [0..<n_shape_functions ext (fe_coarse s)] 0 = Inr x"
    by (auto split: sum.splits)
  from Cons.prems x have k: "?k < length (diff_solution s)" "?k < length (fine_solution inp)"
    by (auto simp: Let_def split: if_splits)
  let ?s1 = "s\<lparr>diff_solution := (diff_solution s)[?k := x - fine_solution inp ! ?k]\<rparr>"
  from Cons.prems x k have r: "var_loop ext inp nv gn
       (inverse_map ext (fe_coarse ?s1) (coarse_element ?s1) ?p) ?s1 cs = Inr s'"
    by (simp add: Let_def)
  note R = Cons.IH [OF r]
  have xi: "x = interpolated ext (coarse_solution inp) nv (int c) (fe_coarse s) (coarse_element s) ?p"
    using x by (rule coarse_soln_loop_interpolated)
  have f: "fits ext (coarse_element s, fe_coarse s)"
    using x by (rule coarse_soln_loop_fits)
  show ?case
    using R k f by (simp add: var_write_def xi)
qed

lemma locate_Inr_eq:
  assumes "locate ext mc s p = Inr s'"
  defines "l \<equiv> (coarse_element s, fe_coarse s)"
  defines "l' \<equiv> locator_query ext mc l p"
  shows "s' = s\<lparr>coarse_element := fst l', fe_coarse := snd l',
                 events := events s @ (if elem_contains_point ext (fst l) p then []
                                       else [Find_element p, Fe_coarse_reinit (fst l')])\<rparr>"
  using assms(1) unfolding l'_def l_def
  by (auto simp: locate_def locator_query_def split: if_splits option.splits)

lemma node_body_done:
  "node_body ext inp nv s gn = Inr s' \<Longrightarrow> gn < length (already_done s)"
  by (auto simp: node_body_def split: if_splits)

lemma node_body_skip:
  "node_body ext inp nv s gn = Inr s' \<Longrightarrow> already_done s ! gn \<Longrightarrow> s' = s"
  by (auto simp: node_body_def split: if_splits)

lemma node_body_Inr:
  assumes "node_body ext inp nv s gn = Inr s'" and "\<not> already_done s ! gn"
  defines "l \<equiv> (coarse_element s, fe_coarse s)"
  defines "l' \<equiv> locator_query ext (mesh_coarse inp) l (fine_point inp gn)"
  shows "s' = s\<lparr>already_done := (already_done s)[gn := True],
                 coarse_element := fst l', fe_coarse := snd l',
                 events := events s @ point_events ext l l' (fine_point inp gn),
                 diff_solution := apply_writes (node_writes ext inp nv (gn, l')) (diff_solution s)\<rparr>"
    and "gn < length (mesh_points (mesh_fine inp))"
    and "found ext (mesh_coarse inp) (fine_point inp gn) l'"
    and "nv \<noteq> 0 \<longrightarrow> fits ext l'"
    and "\<forall>c < nv. field_index gn nv (int c) < length (diff_solution s)"
proof -
  let ?p = "mesh_points (mesh_fine inp) ! gn"
  let ?s0 = "s\<lparr>already_done := (already_done s)[gn := True]\<rparr>"
  from assms(1,2) have d: "gn < length (already_done s)"
    by (auto simp: node_body_def split: if_splits)
  from assms(1,2) d show g: "gn < length (mesh_points (mesh_fine inp))"
    by (auto simp: node_body_def Let_def split: if_splits)
  from assms(1,2) d g obtain s1 where s1: "locate ext (mesh_coarse inp) ?s0 ?p = Inr s1"
    by (auto simp: node_body_def Let_def split: sum.splits)
  let ?s2 = "s1\<lparr>events := events s1 @ [Inverse_map (fe_coarse s1) (coarse_element s1) ?p]\<rparr>"
  from assms(1,2) d g s1 have v: "var_loop ext inp nv gn
      (inverse_map ext (fe_coarse ?s2) (coarse_element ?s2) (mesh_points (mesh_fine inp) ! gn)) ?s2 [0..<nv] = Inr s'"
    by (simp add: node_body_def Let_def)
  note V = var_loop_Inr [OF v]
  note L = locate_Inr_eq [OF s1]
  have l1: "(coarse_element s1, fe_coarse s1) = l'"
    using locate_Inr [OF s1] by (simp add: l'_def l_def fine_point_def)
  then have fl: "coarse_element s1 = fst l'" "fe_coarse s1 = snd l'" by auto
  show "s' = s\<lparr>already_done := (already_done s)[gn := True],
                 coarse_element := fst l', fe_coarse := snd l',
                 events := events s @ point_events ext l l' (fine_point inp gn),
                 diff_solution := apply_writes (node_writes ext inp nv (gn, l')) (diff_solution s)\<rparr>"
    using V L by (simp add: fl point_events_def node_writes_def l_def fine_point_def l1 [symmetric])
  show "found ext (mesh_coarse inp) (fine_point inp gn) l'"
    using locate_found [OF s1] by (simp add: l1 fine_point_def)
  show "nv \<noteq> 0 \<longrightarrow> fits ext l'"
    using V by (simp add: l1)
  show "\<forall>c < nv. field_index gn nv (int c) < length (diff_solution s)"
    using V L by simp
qed

lemma mark_all_simps [simp]:
  "mark_all [] marks = marks"
  "mark_all (n # ns) marks = mark_all ns (marks[n := True])"
  by (simp_all add: mark_all_def)

lemma length_mark_all [simp]: "length (mark_all ns marks) = length marks"
  by (induction ns arbitrary: marks) simp_all

lemma sweep_writes_simps [simp]:
  "sweep_writes ext inp nv [] = []"
  "sweep_writes ext inp nv (v # vs) = node_writes ext inp nv v @ sweep_writes ext inp nv vs"
  by (simp_all add: sweep_writes_def)

lemma unvisited_Nil [simp]: "unvisited marks [] = []"
  by (simp add: unvisited_def)

lemma filter_filter_neq: "\<not> P n \<Longrightarrow> filter P (filter (\<lambda>m. m \<noteq> n) xs) = filter P xs"
  by (induction xs) auto

lemma unvisited_skip: "marks ! n \<Longrightarrow> unvisited marks (n # ns) = unvisited marks ns"
  by (auto simp: unvisited_def intro!: filter_cong)

lemma unvisited_visit:
  assumes "\<not> marks ! n" and "n < length marks"
  shows "unvisited marks (n # ns) = n # unvisited (marks[n := True]) ns"
proof -
  have "filter (\<lambda>m. \<not> marks ! m) (filter (\<lambda>m. m \<noteq> n) xs)
        = filter (\<lambda>m. \<not> marks[n := True] ! m) xs" for xs
    using assms(2) by (induction xs) (auto simp: nth_list_update)
  with assms(1) show ?thesis by (simp add: unvisited_def)
qed

lemma node_loop_Inr:
  assumes "node_loop ext inp nv s ns = Inr s'"
  defines "l \<equiv> (coarse_element s, fe_coarse s)"
  defines "vs \<equiv> unvisited (already_done s) ns"
  defines "ps \<equiv> map (fine_point inp) vs"
  defines "ls \<equiv> located ext (mesh_coarse inp) l ps"
  shows "s' = s\<lparr>already_done := mark_all ns (already_done s),
                 coarse_element := fst (remembered ext (mesh_coarse inp) l ps),
                 fe_coarse := snd (remembered ext (mesh_coarse inp) l ps),
                 events := events s @ sweep_events ext (mesh_coarse inp) l ps,
                 diff_solution := apply_writes (sweep_writes ext inp nv (zip vs ls)) (diff_solution s)\<rparr>
    \<and> (\<forall>n \<in> set ns. n < length (already_done s))
    \<and> (\<forall>n \<in> set vs. n < length (mesh_points (mesh_fine inp)))
    \<and> list_all2 (found ext (mesh_coarse inp)) ps ls
    \<and> (nv \<noteq> 0 \<longrightarrow> list_all (fits ext) ls)
    \<and> (\<forall>n \<in> set vs. \<forall>c < nv. field_index n nv (int c) < length (diff_solution s))"
  using assms(1) unfolding l_def vs_def ps_def ls_def
proof (induction ns arbitrary: s)
  case Nil
  then show ?case by simp
next
  case (Cons n ns)
  from Cons.prems obtain s1 where b: "node_body ext inp nv s n = Inr s1"
    and r: "node_loop ext inp nv s1 ns = Inr s'"
    by (auto split: sum.splits)
  note R = Cons.IH [OF r]
  have d: "n < length (already_done s)" using b by (rule node_body_done)
  show ?case
  proof (cases "already_done s ! n")
    case True
    with b have s1: "s1 = s" by (rule node_body_skip)
    from True d have m: "(already_done s)[n := True] = already_done s"
      by (simp add: list_update_same_conv)
    show ?thesis
      using R d by (simp add: s1 unvisited_skip [OF True] m)
  next
    case False
    note B = node_body_Inr [OF b False]
    let ?l = "(coarse_element s, fe_coarse s)"
    let ?l' = "locator_query ext (mesh_coarse inp) ?l (fine_point inp n)"
    have l1: "(coarse_element s1, fe_coarse s1) = ?l'"
      unfolding B(1) by simp
    have a1: "already_done s1 = (already_done s)[n := True]"
      unfolding B(1) by simp
    have e1: "events s1 = events s @ point_events ext ?l ?l' (fine_point inp n)"
      unfolding B(1) by simp
    have d1: "diff_solution s1 = apply_writes (node_writes ext inp nv (n, ?l')) (diff_solution s)"
      unfolding B(1) by simp
    have s1: "s1\<lparr>already_done := a, coarse_element := c, fe_coarse := f, events := e, diff_solution := x\<rparr>
        = s\<lparr>already_done := a, coarse_element := c, fe_coarse := f, events := e, diff_solution := x\<rparr>" for a c f e x
      unfolding B(1) by simp
    show ?thesis
      using R B(2-5) d
      by (simp add: unvisited_visit [OF False d] l1 a1 e1 d1 s1 apply_writes_append)
  qed
qed

lemma node_loop_append:
  "node_loop ext inp nv s (ns @ ms) =
     (case node_loop ext inp nv s ns of Inl a \<Rightarrow> Inl a | Inr s1 \<Rightarrow> node_loop ext inp nv s1 ms)"
  by (induction ns arbitrary: s) (auto split: sum.splits)

lemma diff_elem_loop_concat:
  "diff_elem_loop ext inp nv s es = node_loop ext inp nv s (concat (map elem_nodes es))"
  by (induction es arbitrary: s) (auto simp: node_loop_append split: sum.splits)

lemma set_first_visits [simp]: "set (first_visits ns) = set ns"
  by (induction ns) auto

lemma distinct_first_visits [simp]: "distinct (first_visits ns)"
  by (induction ns) auto

lemma unvisited_fresh:
  "\<forall>m \<in> set ns. m < n \<Longrightarrow> unvisited (replicate n False) ns = first_visits ns"
  by (auto simp: unvisited_def intro!: filter_True)

lemma diff_sweep_Inr:
  assumes "diff_sweep ext inp names s = Inr s'"
  defines "l \<equiv> (hd (mesh_elems (mesh_coarse inp)), fe_coarse s)"
  defines "vs \<equiv> fine_nodes inp"
  defines "ps \<equiv> map (fine_point inp) vs"
  defines "ls \<equiv> located ext (mesh_coarse inp) l ps"
  shows "mesh_elems (mesh_coarse inp) \<noteq> []"
    and "events s' = events s @ sweep_events ext (mesh_coarse inp) l ps"
    and "diff_solution s' = apply_writes (sweep_writes ext inp (length names) (zip vs ls)) (diff_solution s)"
    and "\<forall>n \<in> set vs. n < length (mesh_points (mesh_fine inp))"
    and "list_all2 (found ext (mesh_coarse inp)) ps ls"
    and "\<forall>n \<in> set vs. \<forall>c < length names. field_index n (length names) (int c) < length (diff_solution s)"
    and "error s' = error s"
proof -
  from assms(1) show ne: "mesh_elems (mesh_coarse inp) \<noteq> []"
    by (auto simp: diff_sweep_def split: list.splits)
  then obtain e0 rest where e0: "mesh_elems (mesh_coarse inp) = e0 # rest"
    by (cases "mesh_elems (mesh_coarse inp)") auto
  let ?n = "length (mesh_points (mesh_fine inp))"
  let ?s0 = "s\<lparr>already_done := replicate ?n False, coarse_element := e0\<rparr>"
  let ?ns = "concat (map elem_nodes (mesh_elems (mesh_fine inp)))"
  from assms(1) e0 have r: "node_loop ext inp (length names) ?s0 ?ns = Inr s'"
    by (simp add: diff_sweep_def diff_elem_loop_concat)
  note N = node_loop_Inr [OF r]
  from N have b: "\<forall>m \<in> set ?ns. m < ?n" by simp
  have u: "unvisited (already_done ?s0) ?ns = vs"
    using unvisited_fresh [OF b] by (simp add: vs_def fine_nodes_def)
  have l0: "(coarse_element ?s0, fe_coarse ?s0) = l"
    by (simp add: l_def e0)
  note N' = N [unfolded u l0, folded ps_def, folded ls_def]
  from N' have s': "s' = ?s0\<lparr>already_done := mark_all ?ns (already_done ?s0),
        coarse_element := fst (remembered ext (mesh_coarse inp) l ps),
        fe_coarse := snd (remembered ext (mesh_coarse inp) l ps),
        events := events ?s0 @ sweep_events ext (mesh_coarse inp) l ps,
        diff_solution := apply_writes (sweep_writes ext inp (length names) (zip vs ls)) (diff_solution ?s0)\<rparr>"
    by blast
  show "events s' = events s @ sweep_events ext (mesh_coarse inp) l ps"
    unfolding s' by simp
  show "diff_solution s' = apply_writes (sweep_writes ext inp (length names) (zip vs ls)) (diff_solution s)"
    unfolding s' by simp
  show "error s' = error s"
    unfolding s' by simp
  from N' show "\<forall>n \<in> set vs. n < length (mesh_points (mesh_fine inp))" by blast
  from N' show "list_all2 (found ext (mesh_coarse inp)) ps ls" by blast
  from N' show "\<forall>n \<in> set vs. \<forall>c < length names. field_index n (length names) (int c) < length (diff_solution s)"
    by simp
qed

lemma apply_writes_other: "k \<notin> fst ` set ws \<Longrightarrow> apply_writes ws d ! k = d ! k"
  by (induction ws arbitrary: d) auto

lemma apply_writes_map_nth:
  assumes "inj_on f (set cs)" and "distinct cs" and "c \<in> set cs" and "f c < length d"
  shows "apply_writes (map (\<lambda>c. (f c, g c)) cs) d ! f c = g c"
  using assms
proof (induction cs arbitrary: d)
  case Nil
  then show ?case by simp
next
  case (Cons a cs)
  show ?case
  proof (cases "c = a")
    case True
    from Cons.prems(1,2) have "f a \<notin> f ` set cs" by (auto simp: inj_on_def)
    then have "f a \<notin> fst ` set (map (\<lambda>c. (f c, g c)) cs)" by (auto simp: image_iff)
    from apply_writes_other [OF this] Cons.prems(4) True show ?thesis by simp
  next
    case False
    with Cons.prems have "inj_on f (set cs)" "distinct cs" "c \<in> set cs" "f c < length (d[f a := g a])"
      by (auto simp: inj_on_def)
    from Cons.IH [OF this] show ?thesis by simp
  qed
qed

lemma index_neq:
  fixes n m nv c c' :: nat
  assumes "n \<noteq> m" and "c < nv" and "c' < nv"
  shows "n * nv + c \<noteq> m * nv + c'"
proof
  assume "n * nv + c = m * nv + c'"
  then have "(n * nv + c) div nv = (m * nv + c') div nv" by simp
  with assms(2,3) have "n = m" by simp
  with assms(1) show False by simp
qed

lemma sweep_writes_nth:
  assumes "distinct (map fst zs)" and "(n, l) \<in> set zs" and "c < nv"
    and exact: "\<forall>z \<in> set zs. \<forall>c < nv. field_index (fst z) nv (int c) = fst z * nv + c"
    and range: "n * nv + c < length d"
  shows "apply_writes (sweep_writes ext inp nv zs) d ! (n * nv + c) = snd (var_write ext inp nv n l c)"
  using assms
proof (induction zs arbitrary: d)
  case Nil
  then show ?case by simp
next
  case (Cons z zs)
  show ?case
  proof (cases "z = (n, l)")
    case True
    have others: "n * nv + c \<notin> fst ` set (sweep_writes ext inp nv zs)"
    proof
      assume "n * nv + c \<in> fst ` set (sweep_writes ext inp nv zs)"
      then obtain z' c' where z': "z' \<in> set zs" and c': "c' < nv"
        and k: "n * nv + c = field_index (fst z') nv (int c')"
        by (auto simp: sweep_writes_def node_writes_def var_write_def)
      from Cons.prems(4) z' c' have "field_index (fst z') nv (int c') = fst z' * nv + c'" by simp
      moreover from Cons.prems(1) True z' have "n \<noteq> fst z'" by auto
      ultimately show False using k index_neq [OF _ Cons.prems(3) c'] by simp
    qed
    have inj: "inj_on (\<lambda>c. field_index n nv (int c)) (set [0..<nv])"
    proof (rule inj_onI)
      fix a b assume "a \<in> set [0..<nv]" "b \<in> set [0..<nv]"
        and e: "field_index n nv (int a) = field_index n nv (int b)"
      then have "a < nv" "b < nv" by simp_all
      with Cons.prems(4) True have "field_index n nv (int a) = n * nv + a"
        "field_index n nv (int b) = n * nv + b" by auto
      with e show "a = b" by simp
    qed
    have fc: "field_index n nv (int c) = n * nv + c"
      using Cons.prems(3,4) True by auto
    have w: "node_writes ext inp nv (n, l)
        = map (\<lambda>c. (field_index n nv (int c), snd (var_write ext inp nv n l c))) [0..<nv]"
      by (simp add: node_writes_def var_write_def)
    have "apply_writes (node_writes ext inp nv (n, l)) d ! field_index n nv (int c)
        = snd (var_write ext inp nv n l c)"
      unfolding w
      by (rule apply_writes_map_nth [OF inj]) (use Cons.prems(3,5) fc in simp_all)
    with others show ?thesis
      by (simp add: True apply_writes_append apply_writes_other fc)
  next
    case False
    with Cons.prems have "distinct (map fst zs)" "(n, l) \<in> set zs" "c < nv"
      "\<forall>z \<in> set zs. \<forall>c < nv. field_index (fst z) nv (int c) = fst z * nv + c"
      "n * nv + c < length (apply_writes (node_writes ext inp nv z) d)"
      by auto
    from Cons.IH [OF this] show ?thesis
      by (simp add: apply_writes_append)
  qed
qed

lemma field_index_node:
  assumes "n < N" and "c < nv" and "N * nv \<le> 4294967296"
  shows "field_index n nv (int c) = n * nv + c"
proof -
  have "n * nv + c < Suc n * nv" using assms(2) by simp
  also have "\<dots> \<le> N * nv" using assms(1) by (intro mult_le_mono1) simp
  finally have "n * nv + c < 4294967296" using assms(3) by simp
  then have "int n * int nv + int c < 4294967296"
    by (metis of_nat_add of_nat_mult of_nat_less_iff of_nat_numeral)
  from field_index_exact [OF _ this] show ?thesis by simp
qed

subsection \<open>The structure of a run of main\<close>

lemma main_sweeps:
  assumes "6 \<le> length argv"
    and "fine_var_names (main_inputs ext argv) = coarse_var_names (main_inputs ext argv)"
  shows "main ext argv =
     (case error_sweep ext (main_inputs ext argv)
             (replicate (length (fine_solution (main_inputs ext argv))) 0) (sweep_start_events ext argv) of
        Inl a \<Rightarrow> Inl a
      | Inr s \<Rightarrow>
          (case diff_sweep ext (main_inputs ext argv) (fine_var_names (main_inputs ext argv)) s of
             Inl a \<Rightarrow> Inl a
           | Inr s' \<Rightarrow>
               Inr (events s' @ [Write_nodal_data ''foo.plt'' (diff_solution s')
                                   (fine_var_names (main_inputs ext argv))])))"
proof -
  obtain cs cn where c: "read_mgf_soln ext (mesh_read ext (argv ! 2)) (argv ! 4) = (cs, cn)"
    by fastforce
  obtain fs fn where f: "read_mgf_soln ext (mesh_read ext (argv ! 3)) (argv ! 5) = (fs, fn)"
    by fastforce
  from assms(2) c f have "fn = cn" by (simp add: main_inputs_def)
  with assms(1) show ?thesis
    by (simp add: main_def c f main_inputs_def sweep_start_events_def Let_def cong: sum.case_cong)
qed

lemma main_Inr:
  assumes "main ext argv = Inr evs"
  defines "inp \<equiv> main_inputs ext argv"
  shows "6 \<le> length argv"
    and "fine_var_names inp = coarse_var_names inp"
    and "\<exists>s s'. error_sweep ext inp (replicate (length (fine_solution inp)) 0) (sweep_start_events ext argv) = Inr s
           \<and> diff_sweep ext inp (fine_var_names inp) s = Inr s'
           \<and> evs = events s' @ [Write_nodal_data ''foo.plt'' (diff_solution s') (fine_var_names inp)]"
proof -
  from assms(1) show len: "6 \<le> length argv"
    by (cases "length argv < 6") (auto simp: main_def split: list.splits)
  obtain cs cn where c: "read_mgf_soln ext (mesh_read ext (argv ! 2)) (argv ! 4) = (cs, cn)"
    by fastforce
  obtain fs fn where f: "read_mgf_soln ext (mesh_read ext (argv ! 3)) (argv ! 5) = (fs, fn)"
    by fastforce
  from assms(1) len c f have "fn = cn"
    by (cases "fn = cn") (auto simp: main_def)
  with c f show eq: "fine_var_names inp = coarse_var_names inp"
    by (simp add: inp_def main_inputs_def)
  from assms(1) show "\<exists>s s'. error_sweep ext inp (replicate (length (fine_solution inp)) 0) (sweep_start_events ext argv) = Inr s
           \<and> diff_sweep ext inp (fine_var_names inp) s = Inr s'
           \<and> evs = events s' @ [Write_nodal_data ''foo.plt'' (diff_solution s') (fine_var_names inp)]"
    unfolding main_sweeps [OF len eq [unfolded inp_def]] inp_def
    by (auto split: sum.splits)
qed

lemma main_Inr_events:
  assumes run: "main ext argv = Inr evs"
  defines "inp \<equiv> main_inputs ext argv"
  defines "mc \<equiv> mesh_coarse (main_inputs ext argv)"
  defines "nv \<equiv> length (fine_var_names (main_inputs ext argv))"
  defines "vs \<equiv> fine_nodes (main_inputs ext argv)"
  defines "ls \<equiv> diff_sweep_located ext (main_inputs ext argv)"
  shows "\<exists>d err.
       evs = sweep_start_events ext argv @ [Fe_coarse_reinit (hd (mesh_elems mc))]
             @ sweep_events ext mc (error_sweep_start inp) (quadrature_points ext inp)
             @ [Cout_real ''Computed error='' err]
             @ sweep_events ext mc (diff_sweep_start ext inp) (map (fine_point inp) vs)
             @ [Write_nodal_data ''foo.plt'' d (fine_var_names inp)]
     \<and> d = apply_writes (sweep_writes ext inp nv (zip vs ls)) (replicate (length (fine_solution inp)) 0)
     \<and> (\<forall>n \<in> set vs. n < length (mesh_points (mesh_fine inp)))
     \<and> (\<forall>n \<in> set vs. \<forall>c < nv. field_index n nv (int c) < length (fine_solution inp))
     \<and> list_all2 (found ext mc) (quadrature_points ext inp) (error_sweep_located ext inp)
     \<and> list_all2 (found ext mc) (map (fine_point inp) vs) ls"
proof -
  from main_Inr(3) [OF run] obtain s s' where
    e: "error_sweep ext inp (replicate (length (fine_solution inp)) 0) (sweep_start_events ext argv) = Inr s"
    and d: "diff_sweep ext inp (fine_var_names inp) s = Inr s'"
    and evs: "evs = events s' @ [Write_nodal_data ''foo.plt'' (diff_solution s') (fine_var_names inp)]"
    unfolding inp_def by blast
  note E = error_sweep_Inr [OF e, folded quadrature_points_def, folded error_sweep_start_def,
      folded error_sweep_located_def [unfolded error_sweep_start_def [symmetric]]]
  from E(2) have fe: "fe_coarse s = snd (remembered ext (mesh_coarse inp) (error_sweep_start inp) (quadrature_points ext inp))"
    by (metis snd_conv)
  note D = diff_sweep_Inr [OF d, unfolded fe, folded diff_sweep_start_def, folded diff_sweep_located_def]
  show ?thesis
    apply (rule exI [of _ "diff_solution s'"])
    apply (rule exI [of _ "error s"])
    using E D evs
    by (simp add: mc_def inp_def nv_def vs_def ls_def error_sweep_start_def)
qed

text \<open>
  The nodal difference sweep of a run that reaches its end. It queries the locator once
  for each node of \<open>fine_nodes\<close>, a list without repetitions of exactly the nodes of the
  fine elements, in this order (the events of the run are written out): every node is
  processed at most once. For each such node \<open>n\<close>, answered in the locator state \<open>l\<close>
  (the element located and the element of the last \<open>reinit\<close> of \<open>fe_coarse\<close>), and
  every variable \<open>v\<close>, the field given to the plot writer holds at index \<open>n * nv + v\<close>
  what the program interpolated in that state, minus the fine value at that index. The
  field has \<open>node_count * nv\<close> entries, and it is written with the name list of the fine
  solution. The hypotheses: the fine field has one entry for each node and variable (the
  invariant of a field vector in the spec's data model), and its size is within
  \<open>unsigned int\<close>.
\<close>

lemma nodal_differences:
  assumes run: "main ext argv = Inr evs"
    and inp: "inp = main_inputs ext argv"
    and nv: "nv = length (fine_var_names inp)"
    and size: "length (fine_solution inp) = length (mesh_points (mesh_fine inp)) * nv"
    and range: "length (mesh_points (mesh_fine inp)) * nv \<le> 4294967296"
  shows "\<exists>d err.
       evs = sweep_start_events ext argv @ [Fe_coarse_reinit (hd (mesh_elems (mesh_coarse inp)))]
             @ sweep_events ext (mesh_coarse inp) (error_sweep_start inp) (quadrature_points ext inp)
             @ [Cout_real ''Computed error='' err]
             @ sweep_events ext (mesh_coarse inp) (diff_sweep_start ext inp)
                 (map (fine_point inp) (fine_nodes inp))
             @ [Write_nodal_data ''foo.plt'' d (fine_var_names inp)]
     \<and> length d = length (mesh_points (mesh_fine inp)) * nv
     \<and> distinct (fine_nodes inp)
     \<and> set (fine_nodes inp) = (\<Union>e \<in> set (mesh_elems (mesh_fine inp)). set (elem_nodes e))
     \<and> length (diff_sweep_located ext inp) = length (fine_nodes inp)
     \<and> (\<forall>(n, l) \<in> set (zip (fine_nodes inp) (diff_sweep_located ext inp)). \<forall>v < nv.
          d ! (n * nv + v)
          = interpolated ext (coarse_solution inp) nv (int v) (snd l) (fst l) (fine_point inp n)
            - fine_solution inp ! (n * nv + v))"
proof -
  let ?N = "length (mesh_points (mesh_fine inp))"
  let ?zs = "zip (fine_nodes inp) (diff_sweep_located ext inp)"
  let ?d0 = "replicate (length (fine_solution inp)) (0::real)"
  from main_Inr_events [OF run, folded inp, folded nv]
  obtain d err where
    evs: "evs = sweep_start_events ext argv @ [Fe_coarse_reinit (hd (mesh_elems (mesh_coarse inp)))]
             @ sweep_events ext (mesh_coarse inp) (error_sweep_start inp) (quadrature_points ext inp)
             @ [Cout_real ''Computed error='' err]
             @ sweep_events ext (mesh_coarse inp) (diff_sweep_start ext inp)
                 (map (fine_point inp) (fine_nodes inp))
             @ [Write_nodal_data ''foo.plt'' d (fine_var_names inp)]"
    and d: "d = apply_writes (sweep_writes ext inp nv ?zs) ?d0"
    and below: "\<forall>n \<in> set (fine_nodes inp). n < ?N"
    by blast
  have len: "length d = ?N * nv" by (simp add: d size)
  have l: "length (diff_sweep_located ext inp) = length (fine_nodes inp)"
    by (simp add: diff_sweep_located_def)
  have st: "set (fine_nodes inp) = (\<Union>e \<in> set (mesh_elems (mesh_fine inp)). set (elem_nodes e))"
    by (simp add: fine_nodes_def)
  have dist: "distinct (map fst ?zs)" by (simp add: l fine_nodes_def)
  have exact: "\<forall>z \<in> set ?zs. \<forall>c < nv. field_index (fst z) nv (int c) = fst z * nv + c"
  proof (intro ballI allI impI)
    fix z c assume z: "z \<in> set ?zs" and c: "c < nv"
    obtain n l where zl: "z = (n, l)" by (cases z)
    from z have "fst z \<in> set (fine_nodes inp)"
      unfolding zl by (auto dest: set_zip_leftD)
    with below have "fst z < ?N" by simp
    from field_index_node [OF this c range] show "field_index (fst z) nv (int c) = fst z * nv + c" .
  qed
  have vals: "\<forall>(n, l) \<in> set ?zs. \<forall>v < nv.
          d ! (n * nv + v)
          = interpolated ext (coarse_solution inp) nv (int v) (snd l) (fst l) (fine_point inp n)
            - fine_solution inp ! (n * nv + v)"
  proof (intro ballI, clarify)
    fix n a b v assume z: "(n, a, b) \<in> set ?zs" and v: "v < nv"
    from z have "n \<in> set (fine_nodes inp)" by (auto dest: set_zip_leftD)
    with below have n: "n < ?N" by simp
    have "n * nv + v < Suc n * nv" using v by simp
    also have "\<dots> \<le> ?N * nv" using n by (intro mult_le_mono1) simp
    finally have r: "n * nv + v < length ?d0" by (simp add: size)
    from sweep_writes_nth [OF dist z v exact r, of ext inp]
    have "d ! (n * nv + v) = snd (var_write ext inp nv n (a, b) v)" by (simp add: d)
    also have "\<dots> = interpolated ext (coarse_solution inp) nv (int v) b a (fine_point inp n)
            - fine_solution inp ! (n * nv + v)"
      by (simp add: var_write_def fine_point_def field_index_node [OF n v range])
    finally show "d ! (n * nv + v)
          = interpolated ext (coarse_solution inp) nv (int v) (snd (a, b)) (fst (a, b)) (fine_point inp n)
            - fine_solution inp ! (n * nv + v)"
      by simp
  qed
  from evs len l st vals show ?thesis
    by (intro exI [of _ d] exI [of _ err]) (simp add: fine_nodes_def)
qed

text \<open>
  Where \<open>fe_coarse\<close> was last reinitialised for the element located (every node from the
  first miss of the sweep on, and the nodes before it when the error sweep ended in the
  first coarse element), what the program interpolated is the coarse value of the claims:
  the sum over the nodes of the located element with that element's own inverse map and
  shape functions.
\<close>

lemma nodal_differences_fresh:
  assumes run: "main ext argv = Inr evs"
    and inp: "inp = main_inputs ext argv"
    and nv: "nv = length (fine_var_names inp)"
    and size: "length (fine_solution inp) = length (mesh_points (mesh_fine inp)) * nv"
    and range: "length (mesh_points (mesh_fine inp)) * nv \<le> 4294967296"
    and node: "(n, l) \<in> set (zip (fine_nodes inp) (diff_sweep_located ext inp))"
    and fresh: "snd l = fst l"
    and v: "v < nv"
    and coarse_range: "in_unsigned_range nv (int v) (fst l)"
    and fit: "fits ext l"
  shows "\<exists>d. last evs = Write_nodal_data ''foo.plt'' d (fine_var_names inp)
     \<and> d ! (n * nv + v)
        = coarse_value ext (coarse_solution inp) nv v (fst l) (fine_point inp n)
          - fine_solution inp ! (n * nv + v)"
proof -
  from nodal_differences [OF run inp nv size range] obtain d pre where
    evs: "evs = pre @ [Write_nodal_data ''foo.plt'' d (fine_var_names inp)]"
    and vals: "\<forall>(n, l) \<in> set (zip (fine_nodes inp) (diff_sweep_located ext inp)). \<forall>v < nv.
          d ! (n * nv + v)
          = interpolated ext (coarse_solution inp) nv (int v) (snd l) (fst l) (fine_point inp n)
            - fine_solution inp ! (n * nv + v)"
    by (elim exE conjE) (simp only: append_assoc [symmetric])
  from bspec [OF vals node] v have
    "d ! (n * nv + v)
       = interpolated ext (coarse_solution inp) nv (int v) (snd l) (fst l) (fine_point inp n)
         - fine_solution inp ! (n * nv + v)"
    by simp
  moreover from fit fresh have "fits ext (fst l, fst l)" by (cases l) simp
  from interpolated_exact [OF _ coarse_range this]
  have "interpolated ext (coarse_solution inp) nv (int v) (fst l) (fst l) (fine_point inp n)
        = coarse_value ext (coarse_solution inp) nv v (fst l) (fine_point inp n)"
    by simp
  ultimately show ?thesis using evs fresh by simp
qed

subsection \<open>The instance, run by main\<close>

lemma chain_main_inputs: "main_inputs chain_ext chain_argv = chain_inp"
  by (simp add: main_inputs_def chain_argv_def chain_ext_def chain_inp_def)

lemma chain_error_sweep_from:
  "error_sweep chain_ext chain_inp d evs =
     Inr \<lparr>error = 1, coarse_element = cell 1, fe_coarse = cell 1, diff_solution = d,
          already_done = [],
          events = evs @ [Fe_coarse_reinit (cell 0), Inverse_map (cell 0) (cell 0) (pt (1/2)),
                    Find_element (pt (3/2)), Fe_coarse_reinit (cell 1),
                    Inverse_map (cell 1) (cell 1) (pt (3/2)), Cout_real ''Computed error='' 1]\<rparr>"
  by (simp add: error_sweep_def chain_defs gp_body_def locate_def upt_rec Let_def field_index_def unsigned_int_def)

lemma chain_diff_sweep:
  "diff_sweep chain_ext chain_inp [''u'']
     \<lparr>error = 1, coarse_element = cell 1, fe_coarse = cell 1, diff_solution = [0, 0, 0],
      already_done = [], events = evs\<rparr> =
   Inr \<lparr>error = 1, coarse_element = cell 1, fe_coarse = cell 1, diff_solution = [0, 0, - 2],
        already_done = [True, True, True],
        events = evs @ [Inverse_map (cell 1) (cell 0) (pt 0), Inverse_map (cell 1) (cell 0) (pt 1),
                  Find_element (pt 2), Fe_coarse_reinit (cell 1), Inverse_map (cell 1) (cell 1) (pt 2)]\<rparr>"
  by (simp add: diff_sweep_def chain_defs node_body_def locate_def upt_rec Let_def field_index_def unsigned_int_def)

lemma chain_main:
  "main chain_ext chain_argv =
     Inr [Cout ''Reading Mesh m0.mesh'', Read_mesh ''m0.mesh'', Cout ''Mesh Information'',
          Cout ''Reading Mesh m1.mesh'', Read_mesh ''m1.mesh'', Cout ''Mesh Information'',
          Cout ''Reading Soln s0.soln'', Read_soln ''s0.soln'',
          Cout ''Reading Soln s1.soln'', Read_soln ''s1.soln'',
          Octree_build, Cout_nat ''n_active_bins() = '' 1,
          Fe_coarse_reinit (cell 0), Inverse_map (cell 0) (cell 0) (pt (1/2)),
          Find_element (pt (3/2)), Fe_coarse_reinit (cell 1),
          Inverse_map (cell 1) (cell 1) (pt (3/2)), Cout_real ''Computed error='' 1,
          Inverse_map (cell 1) (cell 0) (pt 0), Inverse_map (cell 1) (cell 0) (pt 1),
          Find_element (pt 2), Fe_coarse_reinit (cell 1), Inverse_map (cell 1) (cell 1) (pt 2),
          Write_nodal_data ''foo.plt'' [0, 0, - 2] [''u'']]"
proof -
  have l: "6 \<le> length chain_argv" by (simp add: chain_argv_def)
  have n: "fine_var_names (main_inputs chain_ext chain_argv) = coarse_var_names (main_inputs chain_ext chain_argv)"
    by (simp add: chain_main_inputs chain_inp_def)
  have f: "fine_var_names chain_inp = [''u'']" "replicate (length (fine_solution chain_inp)) 0 = [0, 0, 0::real]"
    by (simp_all add: chain_inp_def)
  have s: "sweep_start_events chain_ext chain_argv =
      [Cout ''Reading Mesh m0.mesh'', Read_mesh ''m0.mesh'', Cout ''Mesh Information'',
       Cout ''Reading Mesh m1.mesh'', Read_mesh ''m1.mesh'', Cout ''Mesh Information'',
       Cout ''Reading Soln s0.soln'', Read_soln ''s0.soln'',
       Cout ''Reading Soln s1.soln'', Read_soln ''s1.soln'',
       Octree_build, Cout_nat ''n_active_bins() = '' 1]"
    by (simp add: sweep_start_events_def reading_events_def chain_argv_def chain_ext_def)
  show ?thesis
    unfolding main_sweeps [OF l n] chain_main_inputs f chain_error_sweep_from sum.case chain_diff_sweep
    by (simp add: s)
qed

lemma chain_fine_nodes: "fine_nodes chain_inp = [0, 1, 2]"
  by (simp add: fine_nodes_def chain_inp_def chain_mesh_def cell_def)

lemma chain_mesh_coarse: "mesh_coarse chain_inp = chain_mesh" "mesh_fine chain_inp = chain_mesh"
  by (simp_all add: chain_inp_def)

lemma chain_query:
  "locator_query chain_ext chain_mesh (cell 0, f) (pt 0) = (cell 0, f)"
  "locator_query chain_ext chain_mesh (cell 0, f) (pt (1/2)) = (cell 0, f)"
  "locator_query chain_ext chain_mesh (cell 0, f) (pt 1) = (cell 0, f)"
  "locator_query chain_ext chain_mesh (cell 0, f) (pt (3/2)) = (cell 1, cell 1)"
  "locator_query chain_ext chain_mesh (cell 0, f) (pt 2) = (cell 1, cell 1)"
  "locator_query chain_ext chain_mesh (cell 1, f) (pt 0) = (cell 0, cell 0)"
  "locator_query chain_ext chain_mesh (cell 1, f) (pt (1/2)) = (cell 0, cell 0)"
  "locator_query chain_ext chain_mesh (cell 1, f) (pt 1) = (cell 1, f)"
  "locator_query chain_ext chain_mesh (cell 1, f) (pt (3/2)) = (cell 1, f)"
  "locator_query chain_ext chain_mesh (cell 1, f) (pt 2) = (cell 1, f)"
  by (simp_all add: locator_query_def chain_ext_def chain_tree_def cell_contains_def cell_def pt_def region_contains_def)

lemma chain_points: "mesh_points chain_mesh = [pt 0, pt 1, pt 2]" "mesh_elems chain_mesh = [cell 0, cell 1]"
  by (simp_all add: chain_mesh_def)

lemma chain_diff_sweep_located:
  "diff_sweep_located chain_ext chain_inp = [(cell 0, cell 1), (cell 0, cell 1), (cell 1, cell 1)]"
  by (simp add: diff_sweep_located_def diff_sweep_start_def error_sweep_start_def chain_fine_nodes
        chain_quadrature_points fine_point_def chain_mesh_coarse chain_points chain_query)

lemma nodal_differences_chain:
  "main chain_ext chain_argv \<noteq> Inl (Undefined, [])
   \<and> (case main chain_ext chain_argv of Inl a \<Rightarrow> False
       | Inr evs \<Rightarrow> last evs = Write_nodal_data ''foo.plt'' [0, 0, - 2] [''u''])
   \<and> length (fine_solution chain_inp) = length (mesh_points (mesh_fine chain_inp)) * 1
   \<and> fine_nodes chain_inp = [0, 1, 2]
   \<and> diff_sweep_located chain_ext chain_inp = [(cell 0, cell 1), (cell 0, cell 1), (cell 1, cell 1)]
   \<and> [0, 0, - 2] ! (2 * 1 + 0)
       = interpolated chain_ext (coarse_solution chain_inp) 1 (int 0) (cell 1) (cell 1) (fine_point chain_inp 2)
         - fine_solution chain_inp ! (2 * 1 + 0)
   \<and> interpolated chain_ext (coarse_solution chain_inp) 1 (int 0) (cell 1) (cell 1) (fine_point chain_inp 2) = 2"
proof -
  have h1: "chain_inp = main_inputs chain_ext chain_argv" by (simp add: chain_main_inputs)
  have h2: "1 = length (fine_var_names chain_inp)" by (simp add: chain_inp_def)
  have h3: "length (fine_solution chain_inp) = length (mesh_points (mesh_fine chain_inp)) * 1"
    by (simp add: chain_inp_def chain_mesh_def)
  have h4: "length (mesh_points (mesh_fine chain_inp)) * 1 \<le> 4294967296"
    by (simp add: chain_inp_def chain_mesh_def)
  define evs where "evs = [Cout ''Reading Mesh m0.mesh'', Read_mesh ''m0.mesh'', Cout ''Mesh Information'',
          Cout ''Reading Mesh m1.mesh'', Read_mesh ''m1.mesh'', Cout ''Mesh Information'',
          Cout ''Reading Soln s0.soln'', Read_soln ''s0.soln'',
          Cout ''Reading Soln s1.soln'', Read_soln ''s1.soln'',
          Octree_build, Cout_nat ''n_active_bins() = '' 1,
          Fe_coarse_reinit (cell 0), Inverse_map (cell 0) (cell 0) (pt (1/2)),
          Find_element (pt (3/2)), Fe_coarse_reinit (cell 1),
          Inverse_map (cell 1) (cell 1) (pt (3/2)), Cout_real ''Computed error='' 1,
          Inverse_map (cell 1) (cell 0) (pt 0), Inverse_map (cell 1) (cell 0) (pt 1),
          Find_element (pt 2), Fe_coarse_reinit (cell 1), Inverse_map (cell 1) (cell 1) (pt 2),
          Write_nodal_data ''foo.plt'' [0, 0, - 2] [''u'']]"
  have run: "main chain_ext chain_argv = Inr evs"
    unfolding evs_def by (rule chain_main)
  have le: "last evs = Write_nodal_data ''foo.plt'' [0, 0, - 2] [''u'']"
    unfolding evs_def by simp
  from nodal_differences [OF run h1 h2 h3 h4]
  obtain d pre where
    evs0: "evs = pre @ [Write_nodal_data ''foo.plt'' d (fine_var_names chain_inp)]"
    and vals: "\<forall>(n, l) \<in> set (zip (fine_nodes chain_inp) (diff_sweep_located chain_ext chain_inp)). \<forall>v < 1.
          d ! (n * 1 + v)
          = interpolated chain_ext (coarse_solution chain_inp) 1 (int v) (snd l) (fst l) (fine_point chain_inp n)
            - fine_solution chain_inp ! (n * 1 + v)"
    by (elim exE conjE) (simp only: append_assoc [symmetric])
  from evs0 le have d: "d = [0, 0, - 2]" by simp
  have "(2, (cell 1, cell 1)) \<in> set (zip (fine_nodes chain_inp) (diff_sweep_located chain_ext chain_inp))"
    by (simp add: chain_fine_nodes chain_diff_sweep_located)
  from bspec [OF vals this] have v: "d ! (2 * 1 + 0)
       = interpolated chain_ext (coarse_solution chain_inp) 1 (int 0) (cell 1) (cell 1) (fine_point chain_inp 2)
         - fine_solution chain_inp ! (2 * 1 + 0)"
    by simp
  have i: "interpolated chain_ext (coarse_solution chain_inp) 1 (int 0) (cell 1) (cell 1) (fine_point chain_inp 2) = 2"
    by (simp add: interpolated_def fine_point_def chain_defs field_index_def unsigned_int_def lessThan_Suc numeral_2_eq_2)
  show ?thesis
    using v i h3 le by (simp add: run chain_fine_nodes chain_diff_sweep_located d)
qed

subsection \<open>Every run is in order\<close>

lemma answered_simps [simp]:
  "answered ext mc []"
  "answered ext mc (xs @ ys) = (answered ext mc xs \<and> answered ext mc ys)"
  "answered ext mc (ev # evs) = (event_ok ext mc ev \<and> answered ext mc evs)"
  by (simp_all add: answered_def)

lemma event_ok_simps [simp]:
  "event_ok ext mc (Inverse_map fe e p) = found ext mc p (e, fe)"
  "event_ok ext mc (Find_element p) = (find_element ext mc p \<noteq> None)"
  "event_ok ext mc (Cerr x) = True"
  "event_ok ext mc (Cout x) = True"
  "event_ok ext mc (Cout_nat x n) = True"
  "event_ok ext mc (Cout_real x r) = True"
  "event_ok ext mc (Read_mesh x) = True"
  "event_ok ext mc (Read_soln x) = True"
  "event_ok ext mc Octree_build = True"
  "event_ok ext mc (Fe_coarse_reinit e) = True"
  "event_ok ext mc (Write_nodal_data x d ns) = True"
  by (simp_all add: event_ok_def)

lemma good_outcome_simps [simp]:
  "good_outcome ext mc (Inr s) = answered ext mc (events s)"
  "good_outcome ext mc (Inl a) = (answered ext mc (snd a) \<or> lookup_failure ext mc a)"
  by (simp_all add: good_outcome_def)

lemma answered_mem: "answered ext mc evs \<Longrightarrow> ev \<in> set evs \<Longrightarrow> event_ok ext mc ev"
  by (simp add: answered_def list_all_iff)


lemma locate_good:
  "answered ext mc (events s) \<Longrightarrow> good_outcome ext mc (locate ext mc s p)"
  by (auto simp: locate_def lookup_failure_def split: option.splits)

lemma gp_body_good:
  assumes "answered ext (mesh_coarse inp) (events s)"
  shows "good_outcome ext (mesh_coarse inp) (gp_body ext inp e s gp)"
proof -
  let ?mc = "mesh_coarse inp"
  let ?q = "get_xyz ext e ! gp"
  note L = locate_good [OF assms, of ?q]
  show ?thesis
  proof (cases "locate ext ?mc s ?q")
    case (Inl a)
    with L assms show ?thesis
      by (auto simp: gp_body_def Let_def split: sum.splits)
  next
    case (Inr s1)
    with L have a1: "answered ext ?mc (events s1)" by simp
    from locate_found [OF Inr] have f: "found ext ?mc ?q (coarse_element s1, fe_coarse s1)" .
    from a1 f assms Inr show ?thesis
      by (auto simp: gp_body_def Let_def split: sum.splits)
  qed
qed

lemma gp_loop_good:
  "answered ext (mesh_coarse inp) (events s) \<Longrightarrow>
   good_outcome ext (mesh_coarse inp) (gp_loop ext inp e s gps)"
proof (induction gps arbitrary: s)
  case Nil
  then show ?case by simp
next
  case (Cons gp gps)
  from gp_body_good [OF Cons.prems, of e gp] Cons.IH show ?case
    by (cases "gp_body ext inp e s gp") auto
qed

lemma elem_loop_good:
  "answered ext (mesh_coarse inp) (events s) \<Longrightarrow>
   good_outcome ext (mesh_coarse inp) (elem_loop ext inp s es)"
proof (induction es arbitrary: s)
  case Nil
  then show ?case by simp
next
  case (Cons e es)
  from gp_loop_good [OF Cons.prems, of e "[0..<length (get_xyz ext e)]"] Cons.IH show ?case
    by (cases "gp_loop ext inp e s [0..<length (get_xyz ext e)]") auto
qed

lemma error_sweep_good:
  assumes "answered ext (mesh_coarse inp) evs"
  shows "good_outcome ext (mesh_coarse inp) (error_sweep ext inp d evs)"
proof (cases "mesh_elems (mesh_coarse inp)")
  case Nil
  with assms show ?thesis by (simp add: error_sweep_def)
next
  case (Cons e0 rest)
  let ?s0 = "\<lparr>error = 0, coarse_element = e0, fe_coarse = e0, diff_solution = d,
              already_done = [], events = evs @ [Fe_coarse_reinit e0]\<rparr>"
  have "answered ext (mesh_coarse inp) (events ?s0)" using assms by simp
  from elem_loop_good [OF this, of "mesh_elems (mesh_fine inp)"] Cons show ?thesis
    by (cases "elem_loop ext inp ?s0 (mesh_elems (mesh_fine inp))") (auto simp: error_sweep_def)
qed

lemma var_loop_good:
  "answered ext mc (events s) \<Longrightarrow> good_outcome ext mc (var_loop ext inp nv gn mp s cs)"
proof (induction cs arbitrary: s)
  case Nil
  then show ?case by simp
next
  case (Cons c cs)
  let ?k = "field_index gn nv (int c)"
  show ?case
  proof (cases "coarse_soln_loop ext (coarse_solution inp) nv (int c) (fe_coarse s) (coarse_element s)
             mp [0..<n_shape_functions ext (fe_coarse s)] 0")
    case (Inl f)
    with Cons.prems show ?thesis by simp
  next
    case (Inr x)
    let ?s1 = "s\<lparr>diff_solution := (diff_solution s)[?k := x - fine_solution inp ! ?k]\<rparr>"
    have "answered ext mc (events ?s1)" using Cons.prems by simp
    from Cons.IH [OF this] Inr Cons.prems show ?thesis
      by (simp add: Let_def)
  qed
qed

lemma node_body_good:
  assumes "answered ext (mesh_coarse inp) (events s)"
  shows "good_outcome ext (mesh_coarse inp) (node_body ext inp nv s gn)"
proof -
  let ?mc = "mesh_coarse inp"
  let ?p = "mesh_points (mesh_fine inp) ! gn"
  let ?s0 = "s\<lparr>already_done := (already_done s)[gn := True]\<rparr>"
  have a0: "answered ext ?mc (events ?s0)" using assms by simp
  note L = locate_good [OF a0, of ?p]
  show ?thesis
  proof (cases "locate ext ?mc ?s0 ?p")
    case (Inl a)
    with L assms show ?thesis
      by (auto simp: node_body_def Let_def)
  next
    case (Inr s1)
    with L have a1: "answered ext ?mc (events s1)" by simp
    from locate_found [OF Inr] have f: "found ext ?mc ?p (coarse_element s1, fe_coarse s1)" .
    let ?s2 = "s1\<lparr>events := events s1 @ [Inverse_map (fe_coarse s1) (coarse_element s1) ?p]\<rparr>"
    have "answered ext ?mc (events ?s2)" using a1 f by simp
    from var_loop_good [OF this] assms Inr show ?thesis
      by (auto simp: node_body_def Let_def)
  qed
qed

lemma node_loop_good:
  "answered ext (mesh_coarse inp) (events s) \<Longrightarrow>
   good_outcome ext (mesh_coarse inp) (node_loop ext inp nv s ns)"
proof (induction ns arbitrary: s)
  case Nil
  then show ?case by simp
next
  case (Cons n ns)
  from node_body_good [OF Cons.prems, of nv n] Cons.IH show ?case
    by (cases "node_body ext inp nv s n") auto
qed

lemma diff_sweep_good:
  assumes "answered ext (mesh_coarse inp) (events s)"
  shows "good_outcome ext (mesh_coarse inp) (diff_sweep ext inp names s)"
proof (cases "mesh_elems (mesh_coarse inp)")
  case Nil
  with assms show ?thesis by (simp add: diff_sweep_def)
next
  case (Cons e0 rest)
  let ?s0 = "s\<lparr>already_done := replicate (length (mesh_points (mesh_fine inp))) False,
               coarse_element := e0\<rparr>"
  have "answered ext (mesh_coarse inp) (events ?s0)" using assms by simp
  from node_loop_good [OF this] Cons show ?thesis
    by (simp add: diff_sweep_def diff_elem_loop_concat)
qed

lemma main_mismatch:
  assumes "6 \<le> length argv"
    and "fine_var_names (main_inputs ext argv) \<noteq> coarse_var_names (main_inputs ext argv)"
  shows "main ext argv =
     Inl (Assertion_failed ''fine_var_names == coarse_var_names'', reading_events ext argv)"
proof -
  obtain cs cn where c: "read_mgf_soln ext (mesh_read ext (argv ! 2)) (argv ! 4) = (cs, cn)"
    by fastforce
  obtain fs fn where f: "read_mgf_soln ext (mesh_read ext (argv ! 3)) (argv ! 5) = (fs, fn)"
    by fastforce
  from assms(2) c f have "fn \<noteq> cn" by (simp add: main_inputs_def)
  with assms(1) show ?thesis
    by (simp add: main_def c f)
qed

lemma main_good: "good_run ext (mesh_read ext (argv ! 2)) (main ext argv)"
proof (cases "length argv < 6")
  case True
  then show ?thesis
    by (cases argv) (simp_all add: main_def good_run_def)
next
  case False
  let ?inp = "main_inputs ext argv"
  have mc: "mesh_read ext (argv ! 2) = mesh_coarse ?inp" by (simp add: main_inputs_def)
  show ?thesis
  proof (cases "fine_var_names ?inp = coarse_var_names ?inp")
    case ne: False
    from False have "6 \<le> length argv" by simp
    from main_mismatch [OF this ne] have "main ext argv =
        Inl (Assertion_failed ''fine_var_names == coarse_var_names'', reading_events ext argv)" .
    then show ?thesis by (simp add: good_run_def reading_events_def)
  next
    case eq: True
    from False have len: "6 \<le> length argv" by simp
    have a: "answered ext (mesh_coarse ?inp) (sweep_start_events ext argv)"
      by (simp add: sweep_start_events_def reading_events_def)
    note E = error_sweep_good [OF a, of "replicate (length (fine_solution ?inp)) 0"]
    show ?thesis
    proof (cases "error_sweep ext ?inp (replicate (length (fine_solution ?inp)) 0) (sweep_start_events ext argv)")
      case (Inl b)
      with E show ?thesis
        unfolding main_sweeps [OF len eq] mc by (simp add: good_run_def)
    next
      case (Inr s)
      with E have "answered ext (mesh_coarse ?inp) (events s)" by simp
      from diff_sweep_good [OF this, of "fine_var_names ?inp"] Inr show ?thesis
        unfolding main_sweeps [OF len eq] mc
        by (cases "diff_sweep ext ?inp (fine_var_names ?inp) s") (simp_all add: good_run_def)
    qed
  qed
qed

lemma mapped_points_simps [simp]:
  "mapped_points [] = []"
  "mapped_points (ev # evs) = mapped_point ev @ mapped_points evs"
  "mapped_points (xs @ ys) = mapped_points xs @ mapped_points ys"
  by (simp_all add: mapped_points_def)

lemma mapped_points_sweep_events [simp]:
  "mapped_points (sweep_events ext mc l ps) = ps"
  by (induction ps arbitrary: l) (simp_all add: point_events_def)

lemma mapped_points_start [simp]:
  "mapped_points (sweep_start_events ext argv) = []"
  by (simp add: sweep_start_events_def reading_events_def)

lemma main_of_sweeps:
  assumes "6 \<le> length argv"
    and "main_inputs ext argv = inp"
    and "fine_var_names inp = coarse_var_names inp"
    and "sweep_start_events ext argv = evs"
    and "replicate (length (fine_solution inp)) 0 = d"
    and "error_sweep ext inp d evs = Inr s"
  shows "main ext argv =
     (case diff_sweep ext inp (fine_var_names inp) s of
        Inl a \<Rightarrow> Inl a
      | Inr s' \<Rightarrow> Inr (events s' @ [Write_nodal_data ''foo.plt'' (diff_solution s') (fine_var_names inp)]))"
  using main_sweeps [of argv ext] assms by (simp cong: sum.case_cong)

subsection \<open>More runs of the instance\<close>

lemma flipped_main_inputs: "main_inputs chain_ext flipped_argv = flipped_inp"
  by (simp add: main_inputs_def flipped_argv_def chain_ext_def flipped_inp_def)


lemma flipped_start: "sweep_start_events chain_ext flipped_argv = chain_start ''flipped.mesh'' ''s1.soln''"
  by (simp add: sweep_start_events_def reading_events_def flipped_argv_def chain_ext_def chain_start_def)


lemmas run_defs = chain_ext_def chain_mesh_def flipped_mesh_def far_mesh_def cell_def flipped_cell_def
  pt_def cell_contains_def chain_tree_def region_contains_def
  gp_body_def node_body_def locate_def upt_rec Let_def field_index_def unsigned_int_def

lemma flipped_error_sweep:
  "error_sweep chain_ext flipped_inp d evs =
     Inr \<lparr>error = 1, coarse_element = cell 0, fe_coarse = cell 0, diff_solution = d,
          already_done = [],
          events = evs @ [Fe_coarse_reinit (cell 0),
                    Find_element (pt (3/2)), Fe_coarse_reinit (cell 1),
                    Inverse_map (cell 1) (cell 1) (pt (3/2)),
                    Find_element (pt (1/2)), Fe_coarse_reinit (cell 0),
                    Inverse_map (cell 0) (cell 0) (pt (1/2)),
                    Cout_real ''Computed error='' 1]\<rparr>"
  by (simp add: error_sweep_def flipped_inp_def run_defs)

lemma flipped_diff_sweep:
  "diff_sweep chain_ext flipped_inp [''u'']
     \<lparr>error = 1, coarse_element = cell 0, fe_coarse = cell 0, diff_solution = [0, 0, 0],
      already_done = [], events = evs\<rparr> =
   Inr \<lparr>error = 1, coarse_element = cell 0, fe_coarse = cell 0, diff_solution = [0, 0, - 2],
        already_done = [True, True, True],
        events = evs @ [Find_element (pt 2), Fe_coarse_reinit (cell 1), Inverse_map (cell 1) (cell 1) (pt 2),
                  Inverse_map (cell 1) (cell 1) (pt 1),
                  Find_element (pt 0), Fe_coarse_reinit (cell 0), Inverse_map (cell 0) (cell 0) (pt 0)]\<rparr>"
  by (simp add: diff_sweep_def flipped_inp_def run_defs)



lemma flipped_main:
  "main chain_ext flipped_argv =
     Inr (chain_start ''flipped.mesh'' ''s1.soln'' @
          [Fe_coarse_reinit (cell 0),
           Find_element (pt (3/2)), Fe_coarse_reinit (cell 1), Inverse_map (cell 1) (cell 1) (pt (3/2)),
           Find_element (pt (1/2)), Fe_coarse_reinit (cell 0), Inverse_map (cell 0) (cell 0) (pt (1/2)),
           Cout_real ''Computed error='' 1,
           Find_element (pt 2), Fe_coarse_reinit (cell 1), Inverse_map (cell 1) (cell 1) (pt 2),
           Inverse_map (cell 1) (cell 1) (pt 1),
           Find_element (pt 0), Fe_coarse_reinit (cell 0), Inverse_map (cell 0) (cell 0) (pt 0),
           Write_nodal_data ''foo.plt'' [0, 0, - 2] [''u'']])"
proof -
  have l: "6 \<le> length flipped_argv" by (simp add: flipped_argv_def)
  have n: "fine_var_names flipped_inp = coarse_var_names flipped_inp" by (simp add: flipped_inp_def)
  have d: "replicate (length (fine_solution flipped_inp)) 0 = [0, 0, 0::real]"
    by (simp add: flipped_inp_def)
  have f: "fine_var_names flipped_inp = [''u'']" by (simp add: flipped_inp_def)
  show ?thesis
    unfolding main_of_sweeps [OF l flipped_main_inputs n flipped_start d flipped_error_sweep] f
      flipped_diff_sweep
    by simp
qed


lemma chain_find:
  "find_element chain_ext m (pt (1/2)) = Some (cell 0)"
  "find_element chain_ext m (pt 1) = Some (cell 0)"
  "find_element chain_ext m (pt (3/2)) = Some (cell 1)"
  "find_element chain_ext m (pt 1000) = None"
  by (simp_all add: chain_ext_def chain_tree_def cell_contains_def cell_def pt_def region_contains_def)

lemma cell_neq: "cell 0 \<noteq> cell 1"
  by (simp add: cell_def)

lemma only_cell_0: "elem_contains_point chain_ext a (pt (1/2)) \<Longrightarrow> a = cell 0"
proof -
  assume c: "elem_contains_point chain_ext a (pt (1/2))"
  then have n: "elem_nodes a = [elem_id a, elem_id a + 1]"
    and "real (elem_id a) \<le> 1/2"
    by (simp_all add: chain_ext_def cell_contains_def pt_def)
  then have "elem_id a = 0" by (cases "elem_id a") simp_all
  with n show ?thesis by (cases a) (simp add: cell_def)
qed

subsection \<open>The locator and the octree\<close>



subsection \<open>The elements that the locator selects\<close>

lemma used_elements_simps [simp]:
  "used_elements [] = []"
  "used_elements (ev # evs) = used_element ev @ used_elements evs"
  "used_elements (xs @ ys) = used_elements xs @ used_elements ys"
  by (simp_all add: used_elements_def)

lemma used_elements_sweep_events [simp]:
  "used_elements (sweep_events ext mc l ps) = map fst (located ext mc l ps)"
  by (induction ps arbitrary: l) (simp_all add: point_events_def)

lemma used_elements_start [simp]:
  "used_elements (sweep_start_events ext argv) = []"
  by (simp add: sweep_start_events_def reading_events_def)

lemma selects_located:
  "list_all2 (found ext mc) ps (located ext mc l ps) \<Longrightarrow>
   selects ext mc (fst l) ps (map fst (located ext mc l ps))"
proof (induction ps arbitrary: l)
  case Nil
  then show ?case by simp
next
  case (Cons p ps)
  let ?l' = "locator_query ext mc l p"
  from Cons.prems have f: "found ext mc p ?l'"
    and rest: "list_all2 (found ext mc) ps (located ext mc ?l' ps)"
    by simp_all
  from f have "if elem_contains_point ext (fst l) p then fst ?l' = fst l
               else find_element ext mc p = Some (fst ?l')"
    by (auto simp: found_def locator_query_def split: option.splits)
  with Cons.IH [OF rest] show ?case by simp
qed

lemma selects_length: "selects ext mc r ps es \<Longrightarrow> length es = length ps"
  by (induction ext mc r ps es rule: selects.induct) simp_all

text \<open>
  When the octree returns only elements of the mesh it was built over, every element used
  for interpolation in a run of \<open>main\<close>, complete or not, is an element of the coarse
  mesh.
\<close>

lemma in_mesh_simps [simp]:
  "in_mesh mc (Inverse_map fe e p) = (e \<in> set (mesh_elems mc))"
  "in_mesh mc (Find_element p) = True"
  "in_mesh mc (Cerr x) = True"
  "in_mesh mc (Cout x) = True"
  "in_mesh mc (Cout_nat x n) = True"
  "in_mesh mc (Cout_real x r) = True"
  "in_mesh mc (Read_mesh x) = True"
  "in_mesh mc (Read_soln x) = True"
  "in_mesh mc Octree_build = True"
  "in_mesh mc (Fe_coarse_reinit e) = True"
  "in_mesh mc (Write_nodal_data x d ns) = True"
  by (simp_all add: in_mesh_def)

lemma mesh_outcome_simps [simp]:
  "mesh_outcome mc (Inr s) = (coarse_element s \<in> set (mesh_elems mc) \<and> list_all (in_mesh mc) (events s))"
  "mesh_outcome mc (Inl a) = list_all (in_mesh mc) (snd a)"
  by (simp_all add: mesh_outcome_def)

lemma locate_mesh:
  "finds_in_mesh ext mc \<Longrightarrow> mesh_outcome mc (Inr s) \<Longrightarrow> mesh_outcome mc (locate ext mc s p)"
  by (auto simp: locate_def finds_in_mesh_def split: option.splits)

lemma gp_body_mesh:
  assumes "finds_in_mesh ext (mesh_coarse inp)" and "mesh_outcome (mesh_coarse inp) (Inr s)"
  shows "mesh_outcome (mesh_coarse inp) (gp_body ext inp e s gp)"
proof -
  let ?mc = "mesh_coarse inp"
  let ?q = "get_xyz ext e ! gp"
  note L = locate_mesh [OF assms, of ?q]
  show ?thesis
  proof (cases "locate ext ?mc s ?q")
    case (Inl a)
    with L assms(2) show ?thesis
      by (auto simp: gp_body_def Let_def split: sum.splits)
  next
    case (Inr s1)
    with L assms(2) show ?thesis
      by (auto simp: gp_body_def Let_def split: sum.splits)
  qed
qed

lemma gp_loop_mesh:
  "finds_in_mesh ext (mesh_coarse inp) \<Longrightarrow> mesh_outcome (mesh_coarse inp) (Inr s) \<Longrightarrow>
   mesh_outcome (mesh_coarse inp) (gp_loop ext inp e s gps)"
proof (induction gps arbitrary: s)
  case Nil
  then show ?case by simp
next
  case (Cons gp gps)
  from gp_body_mesh [OF Cons.prems, of e gp] Cons.IH [OF Cons.prems(1)] show ?case
    by (cases "gp_body ext inp e s gp") auto
qed

lemma elem_loop_mesh:
  "finds_in_mesh ext (mesh_coarse inp) \<Longrightarrow> mesh_outcome (mesh_coarse inp) (Inr s) \<Longrightarrow>
   mesh_outcome (mesh_coarse inp) (elem_loop ext inp s es)"
proof (induction es arbitrary: s)
  case Nil
  then show ?case by simp
next
  case (Cons e es)
  from gp_loop_mesh [OF Cons.prems, of e "[0..<length (get_xyz ext e)]"] Cons.IH [OF Cons.prems(1)]
  show ?case
    by (cases "gp_loop ext inp e s [0..<length (get_xyz ext e)]") auto
qed

lemma error_sweep_mesh:
  assumes "finds_in_mesh ext (mesh_coarse inp)" and "list_all (in_mesh (mesh_coarse inp)) evs"
  shows "mesh_outcome (mesh_coarse inp) (error_sweep ext inp d evs)"
proof (cases "mesh_elems (mesh_coarse inp)")
  case Nil
  with assms show ?thesis by (simp add: error_sweep_def)
next
  case (Cons e0 rest)
  let ?s0 = "\<lparr>error = 0, coarse_element = e0, fe_coarse = e0, diff_solution = d,
              already_done = [], events = evs @ [Fe_coarse_reinit e0]\<rparr>"
  have "mesh_outcome (mesh_coarse inp) (Inr ?s0)" using assms(2) Cons by simp
  from elem_loop_mesh [OF assms(1) this, of "mesh_elems (mesh_fine inp)"] Cons show ?thesis
    by (cases "elem_loop ext inp ?s0 (mesh_elems (mesh_fine inp))") (auto simp: error_sweep_def)
qed

lemma var_loop_mesh:
  "mesh_outcome mc (Inr s) \<Longrightarrow> mesh_outcome mc (var_loop ext inp nv gn mp s cs)"
proof (induction cs arbitrary: s)
  case Nil
  then show ?case by simp
next
  case (Cons c cs)
  let ?k = "field_index gn nv (int c)"
  show ?case
  proof (cases "coarse_soln_loop ext (coarse_solution inp) nv (int c) (fe_coarse s) (coarse_element s)
             mp [0..<n_shape_functions ext (fe_coarse s)] 0")
    case (Inl f)
    with Cons.prems show ?thesis by simp
  next
    case (Inr x)
    let ?s1 = "s\<lparr>diff_solution := (diff_solution s)[?k := x - fine_solution inp ! ?k]\<rparr>"
    have "mesh_outcome mc (Inr ?s1)" using Cons.prems by simp
    from Cons.IH [OF this] Inr Cons.prems show ?thesis
      by (simp add: Let_def)
  qed
qed

lemma node_body_mesh:
  assumes "finds_in_mesh ext (mesh_coarse inp)" and "mesh_outcome (mesh_coarse inp) (Inr s)"
  shows "mesh_outcome (mesh_coarse inp) (node_body ext inp nv s gn)"
proof -
  let ?mc = "mesh_coarse inp"
  let ?p = "mesh_points (mesh_fine inp) ! gn"
  let ?s0 = "s\<lparr>already_done := (already_done s)[gn := True]\<rparr>"
  have a0: "mesh_outcome ?mc (Inr ?s0)" using assms(2) by simp
  note L = locate_mesh [OF assms(1) a0, of ?p]
  show ?thesis
  proof (cases "locate ext ?mc ?s0 ?p")
    case (Inl a)
    with L assms(2) show ?thesis
      by (auto simp: node_body_def Let_def)
  next
    case (Inr s1)
    let ?s2 = "s1\<lparr>events := events s1 @ [Inverse_map (fe_coarse s1) (coarse_element s1) ?p]\<rparr>"
    from Inr L have "mesh_outcome ?mc (Inr ?s2)" by simp
    from var_loop_mesh [OF this] assms(2) Inr show ?thesis
      by (auto simp: node_body_def Let_def)
  qed
qed

lemma node_loop_mesh:
  "finds_in_mesh ext (mesh_coarse inp) \<Longrightarrow> mesh_outcome (mesh_coarse inp) (Inr s) \<Longrightarrow>
   mesh_outcome (mesh_coarse inp) (node_loop ext inp nv s ns)"
proof (induction ns arbitrary: s)
  case Nil
  then show ?case by simp
next
  case (Cons n ns)
  from node_body_mesh [OF Cons.prems, of nv n] Cons.IH [OF Cons.prems(1)] show ?case
    by (cases "node_body ext inp nv s n") auto
qed

lemma diff_sweep_mesh:
  assumes "finds_in_mesh ext (mesh_coarse inp)" and "list_all (in_mesh (mesh_coarse inp)) (events s)"
  shows "mesh_outcome (mesh_coarse inp) (diff_sweep ext inp names s)"
proof (cases "mesh_elems (mesh_coarse inp)")
  case Nil
  with assms show ?thesis by (simp add: diff_sweep_def)
next
  case (Cons e0 rest)
  let ?s0 = "s\<lparr>already_done := replicate (length (mesh_points (mesh_fine inp))) False,
               coarse_element := e0\<rparr>"
  have "mesh_outcome (mesh_coarse inp) (Inr ?s0)" using assms(2) Cons by simp
  from node_loop_mesh [OF assms(1) this] Cons show ?thesis
    by (simp add: diff_sweep_def diff_elem_loop_concat)
qed

lemma main_mesh:
  assumes "finds_in_mesh ext (mesh_read ext (argv ! 2))"
  shows "list_all (in_mesh (mesh_read ext (argv ! 2))) (main_events (main ext argv))"
proof (cases "length argv < 6")
  case True
  then show ?thesis
    by (cases argv) (simp_all add: main_def main_events_def)
next
  case False
  let ?inp = "main_inputs ext argv"
  have mc: "mesh_read ext (argv ! 2) = mesh_coarse ?inp" by (simp add: main_inputs_def)
  show ?thesis
  proof (cases "fine_var_names ?inp = coarse_var_names ?inp")
    case ne: False
    from False have "6 \<le> length argv" by simp
    from main_mismatch [OF this ne] show ?thesis
      by (simp add: main_events_def reading_events_def)
  next
    case eq: True
    from False have len: "6 \<le> length argv" by simp
    have a: "list_all (in_mesh (mesh_coarse ?inp)) (sweep_start_events ext argv)"
      by (simp add: sweep_start_events_def reading_events_def)
    note E = error_sweep_mesh [OF assms [unfolded mc] a, of "replicate (length (fine_solution ?inp)) 0"]
    show ?thesis
    proof (cases "error_sweep ext ?inp (replicate (length (fine_solution ?inp)) 0) (sweep_start_events ext argv)")
      case (Inl b)
      with E show ?thesis
        unfolding main_sweeps [OF len eq] mc by (simp add: main_events_def)
    next
      case (Inr s)
      with E have "list_all (in_mesh (mesh_coarse ?inp)) (events s)" by simp
      from diff_sweep_mesh [OF assms [unfolded mc] this, of "fine_var_names ?inp"] Inr show ?thesis
        unfolding main_sweeps [OF len eq] mc
        by (cases "diff_sweep ext ?inp (fine_var_names ?inp) s") (simp_all add: main_events_def)
    qed
  qed
qed

text \<open>
  Claim C1, as the code has it. One query: when the locator answers, a hit leaves the
  state as it is (the remembered element answers, the octree is not asked), and a miss
  takes exactly the element that \<open>find_element\<close> returns for the point, remembers it
  and reinitialises \<open>fe_coarse\<close> for it. A run of \<open>main\<close> that reaches its end: the
  elements used for interpolation are, in program order, those that the locator selects
  for the quadrature points and then for the nodes of the fine elements, each sweep
  starting from the first coarse element. Every run, complete or not: an element \<open>e\<close>
  used at a point \<open>q\<close> contains \<open>q\<close> or is what \<open>find_element\<close> returns for \<open>q\<close>; and
  it is what \<open>find_element\<close> returns for \<open>q\<close> whenever that element is the only element
  of the coarse mesh that contains \<open>q\<close> (the octree returning elements of the coarse
  mesh).
\<close>

theorem hit_keeps_miss_finds:
  "(locate ext mc s p = Inr s' \<longrightarrow>
      (if elem_contains_point ext (coarse_element s) p
       then s' = s
       else find_element ext mc p = Some (coarse_element s') \<and> fe_coarse s' = coarse_element s'
            \<and> events s' = events s @ [Find_element p, Fe_coarse_reinit (coarse_element s')]))
   \<and> (main ext argv = Inr evs \<longrightarrow>
        (\<exists>es1 es2.
           mapped_points evs = quadrature_points ext (main_inputs ext argv)
                               @ map (fine_point (main_inputs ext argv)) (fine_nodes (main_inputs ext argv))
         \<and> used_elements evs = es1 @ es2
         \<and> selects ext (mesh_read ext (argv ! 2)) (hd (mesh_elems (mesh_read ext (argv ! 2))))
               (quadrature_points ext (main_inputs ext argv)) es1
         \<and> selects ext (mesh_read ext (argv ! 2)) (hd (mesh_elems (mesh_read ext (argv ! 2))))
               (map (fine_point (main_inputs ext argv)) (fine_nodes (main_inputs ext argv))) es2))
   \<and> (Inverse_map fe e q \<in> set (main_events (main ext argv)) \<longrightarrow>
        (elem_contains_point ext e q \<or> find_element ext (mesh_read ext (argv ! 2)) q = Some e)
      \<and> ((\<forall>r a. find_element ext (mesh_read ext (argv ! 2)) r = Some a
                   \<longrightarrow> a \<in> set (mesh_elems (mesh_read ext (argv ! 2))))
          \<and> find_element ext (mesh_read ext (argv ! 2)) q = Some e'
          \<and> (\<forall>b \<in> set (mesh_elems (mesh_read ext (argv ! 2))). elem_contains_point ext b q \<longrightarrow> b = e')
          \<longrightarrow> e = e'))"
proof -
  let ?mc = "mesh_read ext (argv ! 2)"
  let ?inp = "main_inputs ext argv"
  let ?qps = "quadrature_points ext ?inp"
  let ?nps = "map (fine_point ?inp) (fine_nodes ?inp)"
  let ?e0 = "hd (mesh_elems ?mc)"
  let ?es1 = "map fst (error_sweep_located ext ?inp)"
  let ?es2 = "map fst (diff_sweep_located ext ?inp)"
  have mc: "mesh_coarse ?inp = ?mc" by (simp add: main_inputs_def)
  have step: "locate ext mc s p = Inr s' \<longrightarrow>
      (if elem_contains_point ext (coarse_element s) p
       then s' = s
       else find_element ext mc p = Some (coarse_element s') \<and> fe_coarse s' = coarse_element s'
            \<and> events s' = events s @ [Find_element p, Fe_coarse_reinit (coarse_element s')])"
    by (auto simp: locate_def split: option.splits)
  have run: "\<exists>es1 es2. mapped_points evs = ?qps @ ?nps \<and> used_elements evs = es1 @ es2
             \<and> selects ext ?mc ?e0 ?qps es1 \<and> selects ext ?mc ?e0 ?nps es2"
    if r: "main ext argv = Inr evs"
  proof -
    from main_Inr_events [OF r] obtain d err where
      evs: "evs = sweep_start_events ext argv @ [Fe_coarse_reinit (hd (mesh_elems (mesh_coarse ?inp)))]
             @ sweep_events ext (mesh_coarse ?inp) (error_sweep_start ?inp) ?qps
             @ [Cout_real ''Computed error='' err]
             @ sweep_events ext (mesh_coarse ?inp) (diff_sweep_start ext ?inp) ?nps
             @ [Write_nodal_data ''foo.plt'' d (fine_var_names ?inp)]"
      and f1: "list_all2 (found ext (mesh_coarse ?inp)) ?qps (error_sweep_located ext ?inp)"
      and f2: "list_all2 (found ext (mesh_coarse ?inp)) ?nps (diff_sweep_located ext ?inp)"
      by blast
    from evs have 1: "mapped_points evs = ?qps @ ?nps" by simp
    from evs have 2: "used_elements evs = ?es1 @ ?es2"
      by (simp add: error_sweep_located_def diff_sweep_located_def error_sweep_start_def)
    from selects_located [OF f1 [unfolded error_sweep_located_def]]
    have 3: "selects ext ?mc ?e0 ?qps ?es1"
      by (simp add: error_sweep_located_def mc)
    from selects_located [OF f2 [unfolded diff_sweep_located_def]]
    have 4: "selects ext ?mc ?e0 ?nps ?es2"
      by (simp add: diff_sweep_located_def diff_sweep_start_def mc)
    from 1 2 3 4 show ?thesis by blast
  qed
  have any: "elem_contains_point ext e q \<or> find_element ext ?mc q = Some e"
    if m: "Inverse_map fe e q \<in> set (main_events (main ext argv))"
  proof -
    note G = main_good [of ext argv]
    have ok: "event_ok ext ?mc (Inverse_map fe e q)"
    proof (cases "main ext argv")
      case (Inr es)
      with G have "answered ext ?mc es" by (simp add: good_run_def)
      moreover from Inr m have "Inverse_map fe e q \<in> set es" by (simp add: main_events_def)
      ultimately show ?thesis by (rule answered_mem)
    next
      case (Inl b)
      with G have "answered ext ?mc (snd b) \<or> lookup_failure ext ?mc b"
        by (simp add: good_run_def)
      then show ?thesis
      proof
        assume "answered ext ?mc (snd b)"
        moreover from Inl m have "Inverse_map fe e q \<in> set (snd b)" by (simp add: main_events_def)
        ultimately show ?thesis by (rule answered_mem)
      next
        assume "lookup_failure ext ?mc b"
        then obtain es r where b': "b = (Assertion_failed ''coarse_element != NULL'', es @ [Find_element r])"
          and ok: "answered ext ?mc es"
          by (auto simp: lookup_failure_def)
        with Inl m have "Inverse_map fe e q \<in> set es" by (simp add: main_events_def)
        with ok show ?thesis by (rule answered_mem)
      qed
    qed
    then show ?thesis by (simp add: found_def)
  qed
  have agree: "e = e'"
    if m: "Inverse_map fe e q \<in> set (main_events (main ext argv))"
      and inm: "\<forall>r a. find_element ext ?mc r = Some a \<longrightarrow> a \<in> set (mesh_elems ?mc)"
      and f: "find_element ext ?mc q = Some e'"
      and u: "\<forall>b \<in> set (mesh_elems ?mc). elem_contains_point ext b q \<longrightarrow> b = e'"
  proof -
    from inm have "finds_in_mesh ext ?mc" by (simp add: finds_in_mesh_def)
    from main_mesh [OF this] m have "in_mesh ?mc (Inverse_map fe e q)"
      unfolding list_all_iff by blast
    then have e: "e \<in> set (mesh_elems ?mc)" by simp
    from any [OF m] show ?thesis
    proof
      assume "elem_contains_point ext e q"
      with u e show ?thesis by blast
    next
      assume "find_element ext ?mc q = Some e"
      with f show ?thesis by simp
    qed
  qed
  from step run any agree show ?thesis by blast
qed

lemma chain_finds_in_mesh:
  "find_element chain_ext chain_mesh r = Some a \<Longrightarrow> a \<in> set (mesh_elems chain_mesh)"
  by (auto simp: chain_ext_def chain_tree_def chain_mesh_def find_Some_iff nth_Cons' split: if_splits)

lemma chain_contains:
  "elem_contains_point chain_ext (cell 0) (pt (1/2))"
  "\<not> elem_contains_point chain_ext (cell 1) (pt (1/2))"
  "\<not> elem_contains_point chain_ext (cell 0) (pt (3/2))"
  "elem_contains_point chain_ext (cell 1) (pt (3/2))"
  by (simp_all add: chain_ext_def cell_contains_def cell_def pt_def)

text \<open>
  An instance, the run on the two-cell mesh: the quadrature point x = 1/2 is a hit in the
  remembered \<open>cell 0\<close>; x = 3/2 is a miss, and \<open>cell 1\<close>, which \<open>find_element\<close> returns,
  is used and remembered; the nodal sweep starts again from \<open>cell 0\<close>. At both quadrature
  points one coarse cell only contains the point, and it is the one used.
\<close>

theorem hit_keeps_miss_finds_witness:
  "elem_contains_point chain_ext (cell 0) (pt (1/2))
   \<and> locate chain_ext chain_mesh
        \<lparr>error = 0, coarse_element = cell 0, fe_coarse = cell 0, diff_solution = [],
         already_done = [], events = []\<rparr> (pt (1/2))
      = Inr \<lparr>error = 0, coarse_element = cell 0, fe_coarse = cell 0, diff_solution = [],
             already_done = [], events = []\<rparr>
   \<and> \<not> elem_contains_point chain_ext (cell 0) (pt (3/2))
   \<and> locate chain_ext chain_mesh
        \<lparr>error = 0, coarse_element = cell 0, fe_coarse = cell 0, diff_solution = [],
         already_done = [], events = []\<rparr> (pt (3/2))
      = Inr \<lparr>error = 0, coarse_element = cell 1, fe_coarse = cell 1, diff_solution = [],
             already_done = [], events = [Find_element (pt (3/2)), Fe_coarse_reinit (cell 1)]\<rparr>
   \<and> find_element chain_ext chain_mesh (pt (3/2)) = Some (cell 1)
   \<and> mapped_points (main_events (main chain_ext chain_argv)) = [pt (1/2), pt (3/2)] @ [pt 0, pt 1, pt 2]
   \<and> used_elements (main_events (main chain_ext chain_argv)) = [cell 0, cell 1] @ [cell 0, cell 0, cell 1]
   \<and> selects chain_ext chain_mesh (cell 0) [pt (1/2), pt (3/2)] [cell 0, cell 1]
   \<and> selects chain_ext chain_mesh (cell 0) [pt 0, pt 1, pt 2] [cell 0, cell 0, cell 1]
   \<and> Inverse_map (cell 1) (cell 1) (pt (3/2)) \<in> set (main_events (main chain_ext chain_argv))
   \<and> filter (\<lambda>b. elem_contains_point chain_ext b (pt (3/2))) (mesh_elems chain_mesh) = [cell 1]
   \<and> Inverse_map (cell 0) (cell 0) (pt (1/2)) \<in> set (main_events (main chain_ext chain_argv))
   \<and> filter (\<lambda>b. elem_contains_point chain_ext b (pt (1/2))) (mesh_elems chain_mesh) = [cell 0]
   \<and> find_element chain_ext chain_mesh (pt (1/2)) = Some (cell 0)"
proof -
  let ?s0 = "\<lparr>error = 0, coarse_element = cell 0, fe_coarse = cell 0, diff_solution = [],
         already_done = [], events = []\<rparr>"
  let ?s1 = "\<lparr>error = 0, coarse_element = cell 1, fe_coarse = cell 1, diff_solution = [],
             already_done = [], events = [Find_element (pt (3/2)), Fe_coarse_reinit (cell 1)]\<rparr>"
  define evs where "evs = main_events (main chain_ext chain_argv)"
  have run: "main chain_ext chain_argv = Inr evs"
    by (simp add: evs_def chain_main main_events_def)
  have mc: "mesh_read chain_ext (chain_argv ! 2) = chain_mesh"
    by (simp add: chain_ext_def chain_argv_def)
  have hit: "locate chain_ext chain_mesh ?s0 (pt (1/2)) = Inr ?s0"
    by (simp add: locate_def chain_contains)
  have miss: "locate chain_ext chain_mesh ?s0 (pt (3/2)) = Inr ?s1"
    by (simp add: locate_def chain_contains chain_find)
  have m1: "Inverse_map (cell 1) (cell 1) (pt (3/2)) \<in> set evs"
    and m0: "Inverse_map (cell 0) (cell 0) (pt (1/2)) \<in> set evs"
    by (simp_all add: evs_def chain_main main_events_def)
  have A: "\<forall>r a. find_element chain_ext chain_mesh r = Some a \<longrightarrow> a \<in> set (mesh_elems chain_mesh)"
    using chain_finds_in_mesh by blast
  have u1: "filter (\<lambda>b. elem_contains_point chain_ext b (pt (3/2))) (mesh_elems chain_mesh) = [cell 1]"
    and u0: "filter (\<lambda>b. elem_contains_point chain_ext b (pt (1/2))) (mesh_elems chain_mesh) = [cell 0]"
    using chain_contains by (simp_all add: chain_points)
  have U1: "\<forall>b \<in> set (mesh_elems chain_mesh). elem_contains_point chain_ext b (pt (3/2)) \<longrightarrow> b = cell 1"
    and U0: "\<forall>b \<in> set (mesh_elems chain_mesh). elem_contains_point chain_ext b (pt (1/2)) \<longrightarrow> b = cell 0"
    using chain_contains by (simp_all add: chain_points)
  note T0 = hit_keeps_miss_finds [of chain_ext chain_mesh ?s0 "pt (1/2)" ?s0 chain_argv evs
      "cell 0" "cell 0" "pt (1/2)" "cell 0", unfolded mc]
  note T1 = hit_keeps_miss_finds [of chain_ext chain_mesh ?s0 "pt (3/2)" ?s1 chain_argv evs
      "cell 1" "cell 1" "pt (3/2)" "cell 1", unfolded mc]
  from T1 miss have f1: "find_element chain_ext chain_mesh (pt (3/2)) = Some (cell 1)"
    by (simp add: chain_contains)
  from T0 run obtain es1 es2 where
    mp: "mapped_points evs = quadrature_points chain_ext (main_inputs chain_ext chain_argv)
          @ map (fine_point (main_inputs chain_ext chain_argv)) (fine_nodes (main_inputs chain_ext chain_argv))"
    and ue: "used_elements evs = es1 @ es2"
    and s1: "selects chain_ext chain_mesh (hd (mesh_elems chain_mesh))
               (quadrature_points chain_ext (main_inputs chain_ext chain_argv)) es1"
    and s2: "selects chain_ext chain_mesh (hd (mesh_elems chain_mesh))
               (map (fine_point (main_inputs chain_ext chain_argv)) (fine_nodes (main_inputs chain_ext chain_argv))) es2"
    by blast
  have qp: "quadrature_points chain_ext (main_inputs chain_ext chain_argv) = [pt (1/2), pt (3/2)]"
    by (simp add: chain_main_inputs chain_quadrature_points)
  have np: "map (fine_point (main_inputs chain_ext chain_argv)) (fine_nodes (main_inputs chain_ext chain_argv))
            = [pt 0, pt 1, pt 2]"
    by (simp add: chain_main_inputs chain_fine_nodes fine_point_def chain_mesh_coarse chain_points)
  have ue': "used_elements evs = [cell 0, cell 1, cell 0, cell 0, cell 1]"
    by (simp add: evs_def chain_main main_events_def)
  from selects_length [OF s1] qp have l: "length es1 = 2" by simp
  have es: "es1 = [cell 0, cell 1]" "es2 = [cell 0, cell 0, cell 1]"
    using append_eq_append_conv [of "[cell 0, cell 1]" es1 "[cell 0, cell 0, cell 1]" es2] ue ue' l
    by auto
  from T0 m0 A U0 have f0: "find_element chain_ext chain_mesh (pt (1/2)) = Some (cell 0)"
    by (simp add: chain_find)
  from hit miss f1 f0 mp ue s1 s2 m1 m0 u1 u0 show ?thesis
    unfolding evs_def [symmetric] es qp np by (simp add: chain_contains chain_points)
qed

text \<open>
  Claim C1 as stated fails where two coarse elements contain the query point. With the
  fine mesh listed from the right, the nodal sweep looks up node 2 (found in \<open>cell 1\<close>)
  and then asks for node 1 at x = 1, on the face that the two cells share: the remembered
  \<open>cell 1\<close> contains it and is used, while \<open>find_element\<close> returns \<open>cell 0\<close>, the first
  element of the leaf that contains it.
\<close>

theorem shared_point_counterexample:
  "Inverse_map (cell 1) (cell 1) (pt 1) \<in> set (main_events (main chain_ext flipped_argv))
   \<and> find_element chain_ext (mesh_read chain_ext (flipped_argv ! 2)) (pt 1) = Some (cell 0)
   \<and> cell 0 \<noteq> cell 1"
  using cell_neq by (simp add: flipped_main main_events_def chain_find)

subsection \<open>The state of fe_coarse\<close>

text \<open>
  In the error sweep \<open>fe_coarse\<close> is reinitialised for the first coarse element before the
  loop and for every element found afterwards: no call of the inverse map is stale.
\<close>

lemma stale_maps_simps [simp]:
  "stale_maps [] = []"
  "stale_maps (xs @ ys) = stale_maps xs @ stale_maps ys"
  by (simp_all add: stale_maps_def)

lemma stale_maps_sweep_events:
  "fst l = snd l \<Longrightarrow> stale_maps (sweep_events ext mc l ps) = []"
proof (induction ps arbitrary: l)
  case Nil
  then show ?case by simp
next
  case (Cons p ps)
  have q: "fst (locator_query ext mc l p) = snd (locator_query ext mc l p)"
    using Cons.prems by (simp add: locator_query_def split: option.splits)
  from Cons.IH [OF q] q show ?case
    by (simp add: point_events_def stale_maps_def)
qed

lemma error_sweep_never_stale:
  assumes "error_sweep ext inp d evs = Inr s"
  shows "stale_maps (events s) = stale_maps evs"
proof -
  note E = error_sweep_Inr [OF assms]
  have "stale_maps (sweep_events ext (mesh_coarse inp)
          (hd (mesh_elems (mesh_coarse inp)), hd (mesh_elems (mesh_coarse inp)))
          (map (q_point ext) (quadrature ext (mesh_elems (mesh_fine inp))))) = []"
    by (rule stale_maps_sweep_events) simp
  with E(5) show ?thesis by (simp add: stale_maps_def)
qed

text \<open>
  Claim C5 does not hold of the nodal sweep. Line 227 sets the remembered element back to
  the first coarse element and, unlike line 141, does not reinitialise \<open>fe_coarse\<close>. In
  the run of the instance (two coarse cells, the fine mesh equal to the coarse one) the
  error sweep ends in \<open>cell 1\<close>; the first two nodes of the nodal sweep lie in \<open>cell 0\<close>,
  the remembered element, and the inverse map and the shape functions are called for
  \<open>cell 0\<close> while \<open>fe_coarse\<close> is still initialised for \<open>cell 1\<close>.
\<close>

theorem nodal_sweep_uses_stale_fe_coarse:
  "stale_maps (main_events (main chain_ext chain_argv))
     = [Inverse_map (cell 1) (cell 0) (pt 0), Inverse_map (cell 1) (cell 0) (pt 1)]"
  using cell_neq by (simp add: chain_main main_events_def stale_maps_def)

subsection \<open>Identical inputs\<close>

text \<open>
  Where the interpolation of the coarse field at a quadrature point gives what the fine
  field gives there, the error is 0; and where the fields are the same and the
  interpolation at a node gives the value of the field at that node, the difference
  written for a node answered after a reinitialisation is 0.
\<close>

lemma identical_inputs_error_zero:
  assumes run: "error_sweep ext inp diff evs = Inr s"
    and exact: "\<forall>(q, l) \<in> set (zip (quadrature ext (mesh_elems (mesh_fine inp))) (error_sweep_located ext inp)).
        interpolated ext (coarse_solution inp) (length (coarse_var_names inp)) (ivar inp) (snd l) (fst l)
          (q_point ext q)
        = fine_interpolated ext inp (fst q) (snd q)"
  shows "error s = 0"
    and "last (events s) = Cout_real ''Computed error='' 0"
proof -
  let ?qs = "quadrature ext (mesh_elems (mesh_fine inp))"
  let ?ls = "error_sweep_located ext inp"
  note E = error_sweep_Inr [OF run, folded quadrature_points_def, folded error_sweep_located_def]
  have t: "(case z of (q, l) \<Rightarrow> error_term ext inp q l) = 0" if "z \<in> set (zip ?qs ?ls)" for z
    using exact that by (cases z) (auto simp: error_term_def)
  have "map2 (error_term ext inp) ?qs ?ls = map (\<lambda>z. 0) (zip ?qs ?ls)"
    by (rule map_cong [OF refl]) (rule t)
  then have "sum_list (map2 (error_term ext inp) ?qs ?ls) = sum_list (map (\<lambda>z. 0::real) (zip ?qs ?ls))"
    by (simp only:)
  then have "sum_list (map2 (error_term ext inp) ?qs ?ls) = 0"
    by simp
  with E(3) show z: "error s = 0" by simp
  from E(5) z show "last (events s) = Cout_real ''Computed error='' 0" by simp
qed

lemma identical_fields_fresh_zero:
  assumes run: "main ext argv = Inr evs"
    and inp: "inp = main_inputs ext argv"
    and nv: "nv = length (fine_var_names inp)"
    and size: "length (fine_solution inp) = length (mesh_points (mesh_fine inp)) * nv"
    and range: "length (mesh_points (mesh_fine inp)) * nv \<le> 4294967296"
    and node: "(n, l) \<in> set (zip (fine_nodes inp) (diff_sweep_located ext inp))"
    and fresh: "snd l = fst l"
    and v: "v < nv"
    and coarse_range: "in_unsigned_range nv (int v) (fst l)"
    and fit: "fits ext l"
    and same: "coarse_solution inp = fine_solution inp"
    and exact: "coarse_value ext (coarse_solution inp) nv v (fst l) (fine_point inp n)
                = coarse_solution inp ! (n * nv + v)"
  shows "\<exists>d. last evs = Write_nodal_data ''foo.plt'' d (fine_var_names inp) \<and> d ! (n * nv + v) = 0"
  using nodal_differences_fresh [OF run inp nv size range node fresh v coarse_range fit] same exact
  by auto

subsection \<open>A mesh with two kinds of elements\<close>

lemmas mixed_defs = mixed_ext_def mixed_mesh_def bar3_def bar2_def pt_def mixed_contains_def
  lagrange_def region_contains_def
  gp_body_def node_body_def locate_def upt_rec Let_def field_index_def unsigned_int_def

lemma mixed_main_inputs: "main_inputs mixed_ext mixed_argv = mixed_inp"
  by (simp add: main_inputs_def mixed_argv_def mixed_ext_def mixed_inp_def)

lemma mixed_sweep_start: "sweep_start_events mixed_ext mixed_argv = mixed_start"
  by (simp add: sweep_start_events_def reading_events_def mixed_argv_def mixed_ext_def mixed_start_def)

lemma mixed_error_sweep:
  "error_sweep mixed_ext mixed_inp d evs =
     Inr \<lparr>error = 0, coarse_element = bar2, fe_coarse = bar2, diff_solution = d,
          already_done = [],
          events = evs @ [Fe_coarse_reinit bar3, Inverse_map bar3 bar3 (pt (1/2)),
                    Find_element (pt (5/2)), Fe_coarse_reinit bar2,
                    Inverse_map bar2 bar2 (pt (5/2)), Cout_real ''Computed error='' 0]\<rparr>"
  by (simp add: error_sweep_def mixed_inp_def mixed_defs)

lemma mixed_diff_sweep:
  "diff_sweep mixed_ext mixed_inp [''u'']
     \<lparr>error = 0, coarse_element = bar2, fe_coarse = bar2, diff_solution = [0, 0, 0, 0],
      already_done = [], events = evs\<rparr> =
   Inr \<lparr>error = 0, coarse_element = bar2, fe_coarse = bar2, diff_solution = [0, - 1, 0, 0],
        already_done = [True, True, True, True],
        events = evs @ [Inverse_map bar2 bar3 (pt 0), Inverse_map bar2 bar3 (pt 2),
                  Inverse_map bar2 bar3 (pt 1),
                  Find_element (pt 3), Fe_coarse_reinit bar2, Inverse_map bar2 bar2 (pt 3)]\<rparr>"
  by (simp add: diff_sweep_def mixed_inp_def mixed_defs)

lemma mixed_main:
  "main mixed_ext mixed_argv =
     Inr (mixed_start @
          [Fe_coarse_reinit bar3, Inverse_map bar3 bar3 (pt (1/2)),
           Find_element (pt (5/2)), Fe_coarse_reinit bar2, Inverse_map bar2 bar2 (pt (5/2)),
           Cout_real ''Computed error='' 0,
           Inverse_map bar2 bar3 (pt 0), Inverse_map bar2 bar3 (pt 2), Inverse_map bar2 bar3 (pt 1),
           Find_element (pt 3), Fe_coarse_reinit bar2, Inverse_map bar2 bar2 (pt 3),
           Write_nodal_data ''foo.plt'' [0, - 1, 0, 0] [''u'']])"
proof -
  have l: "6 \<le> length mixed_argv" by (simp add: mixed_argv_def)
  have n: "fine_var_names mixed_inp = coarse_var_names mixed_inp" by (simp add: mixed_inp_def)
  have d: "replicate (length (fine_solution mixed_inp)) 0 = [0, 0, 0, 0::real]"
    by (simp add: mixed_inp_def)
  have f: "fine_var_names mixed_inp = [''u'']" by (simp add: mixed_inp_def)
  show ?thesis
    unfolding main_of_sweeps [OF l mixed_main_inputs n mixed_sweep_start d mixed_error_sweep] f
      mixed_diff_sweep
    by simp
qed

lemma mixed_coarse_values:
  "coarse_value mixed_ext [0, 1, 2, 3] 1 0 bar3 (pt 0) = 0"
  "coarse_value mixed_ext [0, 1, 2, 3] 1 0 bar3 (pt 1) = 1"
  "coarse_value mixed_ext [0, 1, 2, 3] 1 0 bar3 (pt 2) = 2"
  "coarse_value mixed_ext [0, 1, 2, 3] 1 0 bar2 (pt 3) = 3"
  by (simp_all add: coarse_value_def mixed_defs lessThan_Suc numeral_2_eq_2 numeral_3_eq_3)

text \<open>
  Claim C4 does not hold of the values written, through the defect of claim C5. Both
  meshes are the mesh with two kinds of elements and both fields are the same. The error
  sweep ends in \<open>bar2\<close>, and the nodal sweep sets the remembered element back to \<open>bar3\<close>
  (line 227) with \<open>fe_coarse\<close> still in the state of \<open>bar2\<close>. The nodes 0, 2 and 1 of
  \<open>bar3\<close> are hits, so the loop of lines 263-267 runs over the two shape functions of
  that state and not over the three of \<open>bar3\<close>: the term of the middle node is left
  out. At node 1, which \<open>bar3\<close> contains, the program writes 0 - 1 at index 1 * 1 + 0,
  where the coarse value minus the fine value is 1 - 1. Lemma \<open>nodal_differences\<close>
  states what the sweep does on every input, and lemma \<open>nodal_differences_fresh\<close> that
  the value is as the claim says for the nodes answered after a reinitialisation.
\<close>

theorem stale_state_nodal_value:
  "main mixed_ext mixed_argv =
     Inr (mixed_start @
          [Fe_coarse_reinit bar3, Inverse_map bar3 bar3 (pt (1/2)),
           Find_element (pt (5/2)), Fe_coarse_reinit bar2, Inverse_map bar2 bar2 (pt (5/2)),
           Cout_real ''Computed error='' 0,
           Inverse_map bar2 bar3 (pt 0), Inverse_map bar2 bar3 (pt 2), Inverse_map bar2 bar3 (pt 1),
           Find_element (pt 3), Fe_coarse_reinit bar2, Inverse_map bar2 bar2 (pt 3),
           Write_nodal_data ''foo.plt'' [0, - 1, 0, 0] [''u'']])
   \<and> coarse_solution (main_inputs mixed_ext mixed_argv) = [0, 1, 2, 3]
   \<and> fine_solution (main_inputs mixed_ext mixed_argv) = [0, 1, 2, 3]
   \<and> fine_point (main_inputs mixed_ext mixed_argv) 1 = pt 1
   \<and> elem_contains_point mixed_ext bar3 (pt 1)
   \<and> coarse_value mixed_ext [0, 1, 2, 3] 1 0 bar3 (pt 1) - [0, 1, 2, 3] ! (1 * 1 + 0) = 0
   \<and> interpolated mixed_ext [0, 1, 2, 3] 1 0 bar2 bar3 (pt 1) - [0, 1, 2, 3] ! (1 * 1 + 0) = - 1"
proof -
  have 1: "coarse_solution (main_inputs mixed_ext mixed_argv) = [0, 1, 2, 3]"
    and 2: "fine_solution (main_inputs mixed_ext mixed_argv) = [0, 1, 2, 3]"
    and 3: "fine_point (main_inputs mixed_ext mixed_argv) 1 = pt 1"
    by (simp_all add: mixed_main_inputs mixed_inp_def fine_point_def mixed_mesh_def)
  have 4: "elem_contains_point mixed_ext bar3 (pt 1)"
    by (simp add: mixed_ext_def mixed_contains_def bar3_def pt_def)
  have 5: "interpolated mixed_ext [0, 1, 2, 3] 1 0 bar2 bar3 (pt 1) = 0"
    by (simp add: interpolated_def mixed_defs lessThan_Suc numeral_2_eq_2)
  from 1 2 3 4 5 mixed_coarse_values(2) show ?thesis
    by (simp add: mixed_main)
qed

text \<open>
  Claim C7 does not hold of the nodal differences, through the same defect. In that run
  the coarse and the fine mesh are read from one file and the two fields from one file,
  and the interpolation in \<open>bar3\<close> at its middle node gives the value of the field there.
  The error printed is 0, and the field given to the plot writer holds - 1 at node 1.
\<close>

theorem identical_inputs_nonzero_difference:
  "mesh_coarse (main_inputs mixed_ext mixed_argv) = mesh_fine (main_inputs mixed_ext mixed_argv)
   \<and> coarse_solution (main_inputs mixed_ext mixed_argv) = fine_solution (main_inputs mixed_ext mixed_argv)
   \<and> coarse_var_names (main_inputs mixed_ext mixed_argv) = fine_var_names (main_inputs mixed_ext mixed_argv)
   \<and> coarse_value mixed_ext (coarse_solution (main_inputs mixed_ext mixed_argv)) 1 0 bar3
         (fine_point (main_inputs mixed_ext mixed_argv) 1)
       = fine_solution (main_inputs mixed_ext mixed_argv) ! 1
   \<and> Cout_real ''Computed error='' 0 \<in> set (main_events (main mixed_ext mixed_argv))
   \<and> last (main_events (main mixed_ext mixed_argv)) = Write_nodal_data ''foo.plt'' [0, - 1, 0, 0] [''u'']"
  using mixed_coarse_values(2)
  by (simp add: mixed_main_inputs mixed_inp_def mixed_main main_events_def fine_point_def mixed_mesh_def)

end
